theory Spec2Isabelle
  imports Complex_Main "HOL-Library.Multiset" "HOL-Library.Sublist" "HOL-Library.Word"
begin

unbundle bit_operations_syntax

section \<open>Data model (the interfaces of types/index.ts)\<close>

text \<open>The interfaces that the modules import from \<^verbatim>\<open>../types/index.js\<close>; in the source
  tree they stand at the end of src/index.ts.\<close>

text \<open>
  \<^verbatim>\<open>ChatMessage { role: 'user' | 'assistant' | 'system'; content: string;
                 model?: string; name?: string }\<close>.
  Optional fields are options; \<open>None\<close> is JavaScript's \<open>undefined\<close>.
\<close>

datatype Role = User | Assistant | System

record ChatMessage =
  role :: Role
  content :: string
  model :: "string option"
  name :: "string option"

text \<open>\<^verbatim>\<open>Profile { models: string[]; temperature: number; maxTokens: number }\<close>.
  A JavaScript number is modelled by a real or an integer; the only operation the
  engine applies to it is the truthiness test of \<open>||\<close>.\<close>

record Profile =
  models :: "string list"
  temperature :: real
  maxTokens :: int

text \<open>\<^verbatim>\<open>ChatOptions { temperature?: number; maxTokens?: number; stream?: boolean }\<close>\<close>

record ChatOptions =
  opt_temperature :: "real option"
  opt_maxTokens :: "int option"
  opt_stream :: "bool option"

section \<open>Per-model view of the conversation\<close>

text \<open>
  chat.ts, \<open>streamModelResponse\<close> (and, with the same text, parallel-chat.ts and the
  legacy lib/chat.js):
  \<^verbatim>\<open>this.conversation.filter(msg => msg.role !== 'assistant' || msg.model === model)\<close>
\<close>

definition conversationForModel :: "ChatMessage list \<Rightarrow> string \<Rightarrow> ChatMessage list" where
  "conversationForModel conversation m =
     filter (\<lambda>msg. role msg \<noteq> Assistant \<or> model msg = Some m) conversation"


text \<open>
  components/ChatInterface.tsx, \<open>sendMessage\<close>, which the component \<open>App\<close> calls with the
  conversation that already ends with the current user message:
  \<^verbatim>\<open>
  conversation.forEach(msg => {
    if (msg.role === 'user') { conversationForModel.push(msg); }
    else if (msg.role === 'assistant' && msg.model === model) { conversationForModel.push(msg); }
  });
  conversationForModel.push({ role: 'user' as const, content: message });
  \<close>
  No code of the repository builds a message of role \<^verbatim>\<open>'system'\<close> (a template's system
  text is put in front of the user prompt), and \<open>App\<close>, the only caller of the component,
  stores the user messages it reads and the responses of the component.
\<close>

definition userMessage :: "string \<Rightarrow> ChatMessage" where
  "userMessage txt = \<lparr>role = User, content = txt, model = None, name = None\<rparr>"

text \<open>The messages the engines append: \<^verbatim>\<open>{ role: 'assistant', content: fullResponse, model }\<close>.\<close>

definition assistantMessage :: "string \<Rightarrow> string \<Rightarrow> ChatMessage" where
  "assistantMessage m txt = \<lparr>role = Assistant, content = txt, model = Some m, name = None\<rparr>"

definition inkConversationForModel ::
  "ChatMessage list \<Rightarrow> string \<Rightarrow> string \<Rightarrow> ChatMessage list" where
  "inkConversationForModel conversation m message =
     filter (\<lambda>msg. role msg = User \<or> (role msg = Assistant \<and> model msg = Some m)) conversation
     @ [userMessage message]"

section \<open>Transport client (class OpenRouterClient)\<close>

text \<open>The module that the engines import as \<^verbatim>\<open>./api.js\<close>; in the source tree it follows the
  profile manager in src/lib/profiles.ts.\<close>

subsection \<open>Errors\<close>

text \<open>
  Every \<^verbatim>\<open>throw\<close> of the client is a value of \<open>error\<close>:
  \<^verbatim>\<open>new Error(`API Error (${response.status}): ${error}`)\<close> is \<open>ApiError status body\<close>,
  a rejected \<^verbatim>\<open>fetch\<close> or \<^verbatim>\<open>reader.read()\<close> is \<open>FetchFailed\<close> with the platform's
  message, a rejected \<^verbatim>\<open>response.json()\<close> is \<open>InvalidJson\<close>,
  \<^verbatim>\<open>new Error('No response body')\<close> is \<open>NoResponseBody\<close> and
  \<^verbatim>\<open>new Error('Request failed after maximum retries')\<close> is \<open>MaxRetriesExceeded\<close>.
\<close>

datatype error =
    ApiError nat string
  | FetchFailed string
  | InvalidJson
  | NoResponseBody
  | MaxRetriesExceeded

definition digit_char :: "nat \<Rightarrow> char" where
  "digit_char d = char_of (of_char CHR ''0'' + d)"

fun show_nat :: "nat \<Rightarrow> string" where
  "show_nat n = (if n < 10 then [digit_char n] else show_nat (n div 10) @ [digit_char (n mod 10)])"

declare show_nat.simps [simp del]

text \<open>\<^verbatim>\<open>(error as Error).message\<close>\<close>

fun message :: "error \<Rightarrow> string" where
  "message (ApiError st txt) = ''API Error ('' @ show_nat st @ ''): '' @ txt"
| "message (FetchFailed m) = m"
| "message InvalidJson = ''Unexpected token in JSON''"
| "message NoResponseBody = ''No response body''"
| "message MaxRetriesExceeded = ''Request failed after maximum retries''"

subsection \<open>The platform's \<^verbatim>\<open>parseInt\<close>\<close>

text \<open>
  \<^verbatim>\<open>parseInt(s)\<close> without a radix: leading white space is skipped, a sign is read, the
  prefix \<^verbatim>\<open>0x\<close> selects radix 16, and the longest prefix of digits is the value; no
  digit at all gives \<^verbatim>\<open>NaN\<close>, which is \<open>None\<close> here. The value is the exact integer;
  JavaScript gives the nearest double, which is the same number up to \<open>2\<^sup>5\<^sup>3\<close> and so
  for every header of at most fifteen digits.
\<close>

definition isWhiteSpace :: "char \<Rightarrow> bool" where
  "isWhiteSpace c = (c \<in> {CHR '' '', CHR 0x09, CHR 0x0A, CHR 0x0B, CHR 0x0C, CHR 0x0D})"

definition digitValue :: "char \<Rightarrow> nat option" where
  "digitValue c =
     (let n = (of_char c :: nat) in
      if 48 \<le> n \<and> n \<le> 57 then Some (n - 48)
      else if 97 \<le> n \<and> n \<le> 102 then Some (n - 87)
      else if 65 \<le> n \<and> n \<le> 70 then Some (n - 55)
      else None)"

definition isDigitOf :: "nat \<Rightarrow> char \<Rightarrow> bool" where
  "isDigitOf radix c = (case digitValue c of None \<Rightarrow> False | Some d \<Rightarrow> d < radix)"

definition parseInt :: "string \<Rightarrow> int option" where
  "parseInt s =
     (let s1 = dropWhile isWhiteSpace s;
          (sign, s2) = (case s1 of
                          c # r \<Rightarrow> if c = CHR ''-'' then (-1, r)
                                   else if c = CHR ''+'' then (1, r) else (1, s1)
                        | [] \<Rightarrow> (1::int, s1));
          (radix, s3) = (if take 2 s2 = ''0x'' \<or> take 2 s2 = ''0X'' then (16::nat, drop 2 s2)
                         else (10, s2));
          ds = takeWhile (isDigitOf radix) s3
      in if ds = [] then None
         else Some (sign * int (foldl (\<lambda>a c. a * radix + the (digitValue c)) 0 ds)))"

subsection \<open>HTTP responses\<close>

text \<open>
  What the client reads of a \<^verbatim>\<open>Response\<close>: \<^verbatim>\<open>status\<close>, the header
  \<^verbatim>\<open>headers.get('Retry-After')\<close>, the body as \<^verbatim>\<open>text()\<close>, the body as \<^verbatim>\<open>json()\<close>
  (\<open>None\<close> when it rejects), and the body as a stream, \<^verbatim>\<open>body?.getReader()\<close>: the
  chunks that successive \<^verbatim>\<open>reader.read()\<close> calls deliver, already decoded, and how the
  reading ends. A \<^verbatim>\<open>fetch\<close> that rejects is \<open>Rejected\<close>.
\<close>

datatype ReadEnd = EndOfStream | ReadFailed string

record 'a HttpResponse =
  status :: nat
  retryAfter :: "string option"
  bodyText :: string
  json :: "'a option"
  body :: "(string list \<times> ReadEnd) option"

datatype 'a FetchResult = Rejected string | Responded "'a HttpResponse"

text \<open>\<^verbatim>\<open>response.ok\<close>\<close>

definition ok :: "'a HttpResponse \<Rightarrow> bool" where
  "ok response = (200 \<le> status response \<and> status response \<le> 299)"

subsection \<open>\<^verbatim>\<open>makeRequest\<close>\<close>

text \<open>
  \<^verbatim>\<open>
  const MAX_RETRIES = 3;
  const INITIAL_RETRY_DELAY = 1000;

  let lastError: Error | null = null;
  for (let attempt = 0; attempt < MAX_RETRIES; attempt++) {
    try {
      const response = await fetch(url, { ...options, headers });
      if (response.status === 429) {
        const retryAfter = response.headers.get('Retry-After');
        const delayMs = retryAfter ? parseInt(retryAfter) * 1000
                                   : INITIAL_RETRY_DELAY * Math.pow(2, attempt);
        await delay(delayMs);
        continue;
      }
      if (!response.ok) {
        const error = await response.text();
        throw new Error(`API Error (${response.status}): ${error}`);
      }
      return await response.json() as T;
    } catch (error) {
      lastError = error as Error;
      if (attempt < MAX_RETRIES - 1) {
        const delayMs = INITIAL_RETRY_DELAY * Math.pow(2, attempt);
        await delay(delayMs);
      }
    }
  }
  throw lastError || new Error('Request failed after maximum retries');
  \<close>
  The transport is the function that gives the outcome of the \<open>n\<close>-th \<^verbatim>\<open>fetch\<close> of the
  call. A run records its result, the number of \<^verbatim>\<open>fetch\<close> calls and the arguments of
  the \<^verbatim>\<open>delay\<close> calls in order (\<open>None\<close> is \<^verbatim>\<open>NaN\<close>).
\<close>

definition MAX_RETRIES :: nat where
  "MAX_RETRIES = 3"

definition INITIAL_RETRY_DELAY :: int where
  "INITIAL_RETRY_DELAY = 1000"

definition rateLimitDelay :: "string option \<Rightarrow> nat \<Rightarrow> int option" where
  "rateLimitDelay header attempt =
     (case header of
        None \<Rightarrow> Some (INITIAL_RETRY_DELAY * 2 ^ attempt)
      | Some s \<Rightarrow> if s = [] then Some (INITIAL_RETRY_DELAY * 2 ^ attempt)
                  else map_option (\<lambda>n. n * 1000) (parseInt s))"

text \<open>The body of the \<^verbatim>\<open>try\<close> block: it returns, continues after a 429, or throws into
  the \<^verbatim>\<open>catch\<close> block.\<close>

datatype 'a Attempt = Returned 'a | RateLimited "int option" | Caught error

definition attemptRequest :: "(nat \<Rightarrow> 'a FetchResult) \<Rightarrow> nat \<Rightarrow> 'a Attempt" where
  "attemptRequest fetch attempt =
     (case fetch attempt of
        Rejected m \<Rightarrow> Caught (FetchFailed m)
      | Responded response \<Rightarrow>
          if status response = 429 then RateLimited (rateLimitDelay (retryAfter response) attempt)
          else if \<not> ok response then Caught (ApiError (status response) (bodyText response))
          else (case json response of None \<Rightarrow> Caught InvalidJson | Some v \<Rightarrow> Returned v))"

record 'a RequestRun =
  result :: "error + 'a"
  attempts :: nat
  delays :: "int option list"

function makeRequest_loop ::
  "(nat \<Rightarrow> 'a FetchResult) \<Rightarrow> nat \<Rightarrow> error option \<Rightarrow> int option list \<Rightarrow> 'a RequestRun" where
  "makeRequest_loop fetch attempt lastError waited =
     (if attempt < MAX_RETRIES then
        (case attemptRequest fetch attempt of
           Returned v \<Rightarrow> \<lparr>result = Inr v, attempts = attempt + 1, delays = waited\<rparr>
         | RateLimited delayMs \<Rightarrow> makeRequest_loop fetch (attempt + 1) lastError (waited @ [delayMs])
         | Caught e \<Rightarrow>
             makeRequest_loop fetch (attempt + 1) (Some e)
               (if attempt < MAX_RETRIES - 1
                then waited @ [Some (INITIAL_RETRY_DELAY * 2 ^ attempt)] else waited))
      else \<lparr>result = Inl (case lastError of Some e \<Rightarrow> e | None \<Rightarrow> MaxRetriesExceeded),
             attempts = attempt, delays = waited\<rparr>)"
  by pat_completeness auto
termination
  by (relation "measure (\<lambda>(fetch, attempt, lastError, waited). MAX_RETRIES - attempt)") auto

declare makeRequest_loop.simps [simp del]

definition makeRequest :: "(nat \<Rightarrow> 'a FetchResult) \<Rightarrow> 'a RequestRun" where
  "makeRequest fetch = makeRequest_loop fetch 0 None []"

section \<open>Streaming request (\<^verbatim>\<open>streamChat\<close>)\<close>

subsection \<open>Request body\<close>

text \<open>
  \<^verbatim>\<open>
  const body = JSON.stringify({
    model,
    messages,
    temperature: options.temperature || 0.7,
    max_tokens: options.maxTokens || 4000,
    stream: true
  });
  \<close>
  \<^verbatim>\<open>a || b\<close> is \<^verbatim>\<open>b\<close> when \<^verbatim>\<open>a\<close> is \<^verbatim>\<open>undefined\<close> or the number 0.
\<close>

record RequestBody =
  rb_model :: string
  rb_messages :: "ChatMessage list"
  rb_temperature :: real
  rb_max_tokens :: int
  rb_stream :: bool

definition orElse :: "'a::zero option \<Rightarrow> 'a \<Rightarrow> 'a" where
  "orElse a b = (case a of None \<Rightarrow> b | Some v \<Rightarrow> if v = 0 then b else v)"

definition streamChat_body :: "ChatMessage list \<Rightarrow> string \<Rightarrow> ChatOptions \<Rightarrow> RequestBody" where
  "streamChat_body messages m options =
     \<lparr>rb_model = m,
      rb_messages = messages,
      rb_temperature = orElse (opt_temperature options) (7 / 10),
      rb_max_tokens = orElse (opt_maxTokens options) 4000,
      rb_stream = True\<rparr>"

text \<open>
  The options every engine passes (chat.ts, parallel-chat.ts, ChatInterface.tsx):
  \<^verbatim>\<open>{ temperature: this.currentProfile.temperature,
     maxTokens: this.currentProfile.maxTokens, stream: true }\<close>
\<close>

definition profileOptions :: "Profile \<Rightarrow> ChatOptions" where
  "profileOptions profile =
     \<lparr>opt_temperature = Some (temperature profile),
      opt_maxTokens = Some (maxTokens profile),
      opt_stream = Some True\<rparr>"

subsection \<open>Stream fragments\<close>

text \<open>
  \<^verbatim>\<open>StreamChunk { ...; choices: Array<{ index; delta: { role?: string; content?: string };
                                         finish_reason?: string }> }\<close>.
  The value of \<^verbatim>\<open>JSON.parse(data) as StreamChunk\<close>; \<open>choices\<close> and \<open>delta\<close> are options
  because the code tests them before use.
\<close>

record Delta =
  delta_role :: "string option"
  delta_content :: "string option"

record Choice =
  delta :: "Delta option"
  finish_reason :: "string option"

record StreamChunk =
  choices :: "Choice list option"

text \<open>
  \<^verbatim>\<open>
  if (chunk.choices && chunk.choices[0] && chunk.choices[0].delta) {
    const content = chunk.choices[0].delta.content;
    if (content) { yield content; }
  }
  \<close>
\<close>

definition chunkContent :: "StreamChunk \<Rightarrow> string option" where
  "chunkContent chunk =
     (case choices chunk of
        None \<Rightarrow> None
      | Some cs \<Rightarrow>
          (case cs of
             [] \<Rightarrow> None
           | c # _ \<Rightarrow> (case delta c of None \<Rightarrow> None | Some d \<Rightarrow> delta_content d)))"

subsection \<open>Lines\<close>

text \<open>\<^verbatim>\<open>s.split('\n')\<close>: never empty; the last element is the text after the last newline.\<close>

fun split_nl :: "string \<Rightarrow> string list" where
  "split_nl [] = [[]]"
| "split_nl (c # cs) =
     (if c = CHR 0x0A then [] # split_nl cs
      else (case split_nl cs of [] \<Rightarrow> [[c]] | l # ls \<Rightarrow> (c # l) # ls))"

text \<open>\<^verbatim>\<open>s.trim()\<close> and \<^verbatim>\<open>s.startsWith(p)\<close>. White space beyond ASCII is left out: a
  line of white space only is ignored by every branch of the loop anyway.\<close>

definition trim :: "string \<Rightarrow> string" where
  "trim s = rev (dropWhile isWhiteSpace (rev (dropWhile isWhiteSpace s)))"

definition startsWith :: "string \<Rightarrow> string \<Rightarrow> bool" where
  "startsWith s p = (take (length p) s = p)"

text \<open>
  The body of the loop over the lines; \<open>JSON_parse\<close> is the platform's parser, \<open>None\<close>
  when the \<^verbatim>\<open>try\<close> block around it throws:
  \<^verbatim>\<open>
  if (line.trim() === '') continue;
  if (line.startsWith(': ')) continue; // Skip comments
  if (line.startsWith('data: ')) {
    const data = line.slice(6);
    if (data === '[DONE]') return;
    try {
      const chunk = JSON.parse(data) as StreamChunk;
      ... yield content ...
    } catch (e) {
      // Skip invalid JSON
      console.error('Failed to parse SSE chunk:', e);
    }
  }
  \<close>
\<close>

datatype LineEvent = Ignore | Yield string | Done

definition processLine :: "(string \<Rightarrow> StreamChunk option) \<Rightarrow> string \<Rightarrow> LineEvent" where
  "processLine JSON_parse line =
     (if trim line = [] then Ignore
      else if startsWith line '': '' then Ignore
      else if startsWith line ''data: '' then
        (let data = drop 6 line in
         if data = ''[DONE]'' then Done
         else (case JSON_parse data of
                 None \<Rightarrow> Ignore
               | Some chunk \<Rightarrow>
                   (case chunkContent chunk of
                      None \<Rightarrow> Ignore
                    | Some c \<Rightarrow> if c \<noteq> [] then Yield c else Ignore)))
      else Ignore)"

text \<open>\<^verbatim>\<open>for (const line of lines)\<close>: the tokens yielded, and whether the generator
  returned at the sentinel.\<close>

fun processLines :: "(string \<Rightarrow> StreamChunk option) \<Rightarrow> string list \<Rightarrow> string list \<times> bool" where
  "processLines JSON_parse [] = ([], False)"
| "processLines JSON_parse (line # lines) =
     (case processLine JSON_parse line of
        Done \<Rightarrow> ([], True)
      | Yield c \<Rightarrow> (let (ts, d) = processLines JSON_parse lines in (c # ts, d))
      | Ignore \<Rightarrow> processLines JSON_parse lines)"

subsection \<open>The read loop\<close>

text \<open>
  \<^verbatim>\<open>
  let buffer = '';
  while (true) {
    const { done, value } = await reader.read();
    if (done) break;
    buffer += decoder.decode(value, { stream: true });
    const lines = buffer.split('\n');
    buffer = lines.pop() || '';   // Keep the last incomplete line in the buffer
    for (const line of lines) { ... }
  }
  \<close>
  A run of the generator is the list of the tokens it yields and the way it ends.
\<close>

datatype StreamEnd = Completed | Threw error

fun readLoop ::
  "(string \<Rightarrow> StreamChunk option) \<Rightarrow> string \<Rightarrow> string list \<Rightarrow> ReadEnd \<Rightarrow> string list \<times> StreamEnd" where
  "readLoop JSON_parse buffer [] rend =
     ([], case rend of EndOfStream \<Rightarrow> Completed | ReadFailed m \<Rightarrow> Threw (FetchFailed m))"
| "readLoop JSON_parse buffer (chunk # rest) rend =
     (let lines = split_nl (buffer @ chunk);
          (ts, d) = processLines JSON_parse (butlast lines)
      in if d then (ts, Completed)
         else (let (ts', e) = readLoop JSON_parse (last lines) rest rend in (ts @ ts', e)))"

text \<open>
  \<^verbatim>\<open>
  const response = await fetch(url, { method: 'POST', headers, body });
  if (!response.ok) {
    const error = await response.text();
    throw new Error(`API Error (${response.status}): ${error}`);
  }
  const reader = response.body?.getReader();
  if (!reader) throw new Error('No response body');
  \<close>
  The backend is the function from the request body to the outcome of \<^verbatim>\<open>fetch\<close>.
\<close>

definition streamChat ::
  "(string \<Rightarrow> StreamChunk option) \<Rightarrow> (RequestBody \<Rightarrow> 'a FetchResult) \<Rightarrow>
     ChatMessage list \<Rightarrow> string \<Rightarrow> ChatOptions \<Rightarrow> string list \<times> StreamEnd" where
  "streamChat JSON_parse backend messages m options =
     (case backend (streamChat_body messages m options) of
        Rejected msg \<Rightarrow> ([], Threw (FetchFailed msg))
      | Responded response \<Rightarrow>
          if \<not> ok response then ([], Threw (ApiError (status response) (bodyText response)))
          else (case body response of
                  None \<Rightarrow> ([], Threw NoResponseBody)
                | Some (chunks, rend) \<Rightarrow> readLoop JSON_parse [] chunks rend))"

subsection \<open>Healthy and malformed lines\<close>

text \<open>
  A line of a healthy event stream is blank, a comment, or a data line whose payload the
  parser accepts; the token it carries is the content of the first choice's delta (empty
  when there is none). A malformed line is any line that is not the sentinel and whose
  payload, if it is a data line, the parser rejects.
\<close>

definition fragmentLine :: "(string \<Rightarrow> StreamChunk option) \<Rightarrow> string \<Rightarrow> bool" where
  "fragmentLine JSON_parse l =
     (trim l = [] \<or> startsWith l '': '' \<or>
      (startsWith l ''data: '' \<and> drop 6 l \<noteq> ''[DONE]'' \<and> JSON_parse (drop 6 l) \<noteq> None))"

definition fragmentToken :: "(string \<Rightarrow> StreamChunk option) \<Rightarrow> string \<Rightarrow> string" where
  "fragmentToken JSON_parse l =
     (if startsWith l ''data: '' then
        (case JSON_parse (drop 6 l) of
           None \<Rightarrow> []
         | Some chunk \<Rightarrow> (case chunkContent chunk of None \<Rightarrow> [] | Some c \<Rightarrow> c))
      else [])"

definition malformedLine :: "(string \<Rightarrow> StreamChunk option) \<Rightarrow> string \<Rightarrow> bool" where
  "malformedLine JSON_parse l =
     (l \<noteq> ''data: [DONE]'' \<and> (startsWith l ''data: '' \<longrightarrow> JSON_parse (drop 6 l) = None))"

text \<open>
  The run of the generator on the whole text of the response at once: the lines are the
  pieces that end in a newline, and what follows the last newline is never processed.
  The read loop computes this for every way of cutting the text into chunks (lemma
  \<open>readLoop_readText\<close>).
\<close>

definition readText ::
  "(string \<Rightarrow> StreamChunk option) \<Rightarrow> string \<Rightarrow> ReadEnd \<Rightarrow> string list \<times> StreamEnd" where
  "readText JSON_parse txt rend =
     (case processLines JSON_parse (butlast (split_nl txt)) of
        (ts, True) \<Rightarrow> (ts, Completed)
      | (ts, False) \<Rightarrow>
          (ts, case rend of EndOfStream \<Rightarrow> Completed | ReadFailed m \<Rightarrow> Threw (FetchFailed m)))"

section \<open>Streaming request on the values the parser returns\<close>

text \<open>
  \<^verbatim>\<open>JSON.parse(data) as StreamChunk\<close> is a cast that checks nothing: the fragment is
  whatever value the payload denotes, and \<^verbatim>\<open>if (content) { yield content; }\<close> yields
  whatever truthy value \<^verbatim>\<open>content\<close> is. This section follows \<open>streamChat\<close> on the values
  themselves. The section before it is the same generator on the values of the declared
  type \<open>StreamChunk\<close> (lemma \<open>streamChatRaw_typed\<close>).

  A value that \<^verbatim>\<open>JSON.parse\<close> returns. A number is a double, taken as the real number it
  is, or an infinity (of a literal too large for a double); the keys of an object are
  distinct.
\<close>

datatype JsNumber = Finite real | PlusInfinity | MinusInfinity

datatype JsonValue =
    JNull
  | JBool bool
  | JNumber JsNumber
  | JString string
  | JArray "JsonValue list"
  | JObject "(string \<times> JsonValue) list"

text \<open>\<^verbatim>\<open>if (v)\<close>: \<^verbatim>\<open>null\<close>, \<^verbatim>\<open>false\<close>, 0 and the empty string are falsy, every other value
  is truthy, the empty array and the empty object too.\<close>

fun truthy :: "JsonValue \<Rightarrow> bool" where
  "truthy JNull = False"
| "truthy (JBool b) = b"
| "truthy (JNumber n) = (n \<noteq> Finite 0)"
| "truthy (JString s) = (s \<noteq> [])"
| "truthy (JArray xs) = True"
| "truthy (JObject kvs) = True"

text \<open>
  \<^verbatim>\<open>v.name\<close> for the names \<^verbatim>\<open>choices\<close>, \<^verbatim>\<open>delta\<close> and \<^verbatim>\<open>content\<close>, which no prototype
  defines: the property of an object, \<^verbatim>\<open>undefined\<close> (here \<open>None\<close>) if it has none of that
  name and on every array, string, number and boolean. On \<^verbatim>\<open>null\<close> the access throws a
  \<^verbatim>\<open>TypeError\<close>; \<open>processLineRaw\<close> takes that case before it asks for a property.
\<close>

fun getProp :: "JsonValue \<Rightarrow> string \<Rightarrow> JsonValue option" where
  "getProp (JObject kvs) k = map_of kvs k"
| "getProp v k = None"

text \<open>\<^verbatim>\<open>v[0]\<close>: the first element of an array, the first character of a string, the property
  \<^verbatim>\<open>"0"\<close> of an object.\<close>

fun getIndex0 :: "JsonValue \<Rightarrow> JsonValue option" where
  "getIndex0 (JArray xs) = (case xs of [] \<Rightarrow> None | x # _ \<Rightarrow> Some x)"
| "getIndex0 (JString s) = (case s of [] \<Rightarrow> None | c # _ \<Rightarrow> Some (JString [c]))"
| "getIndex0 (JObject kvs) = map_of kvs ''0''"
| "getIndex0 v = None"

text \<open>
  \<^verbatim>\<open>chunk.choices && chunk.choices[0] && chunk.choices[0].delta\<close>: the delta when the three
  values are truthy.
\<close>

definition rawDelta :: "JsonValue \<Rightarrow> JsonValue option" where
  "rawDelta chunk =
     (case getProp chunk ''choices'' of
        None \<Rightarrow> None
      | Some cs \<Rightarrow>
          if \<not> truthy cs then None
          else (case getIndex0 cs of
                  None \<Rightarrow> None
                | Some c \<Rightarrow>
                    if \<not> truthy c then None
                    else (case getProp c ''delta'' of
                            None \<Rightarrow> None
                          | Some d \<Rightarrow> if truthy d then Some d else None)))"

datatype RawEvent = RawIgnore | RawYield JsonValue | RawDone

text \<open>The body of the loop over the lines. A payload that is \<^verbatim>\<open>null\<close> makes
  \<^verbatim>\<open>chunk.choices\<close> throw inside the \<^verbatim>\<open>try\<close> block, so the line is skipped as a payload
  that does not parse is.\<close>

definition processLineRaw :: "(string \<Rightarrow> JsonValue option) \<Rightarrow> string \<Rightarrow> RawEvent" where
  "processLineRaw JSON_parse line =
     (if trim line = [] then RawIgnore
      else if startsWith line '': '' then RawIgnore
      else if startsWith line ''data: '' then
        (let data = drop 6 line in
         if data = ''[DONE]'' then RawDone
         else (case JSON_parse data of
                 None \<Rightarrow> RawIgnore
               | Some chunk \<Rightarrow>
                   if chunk = JNull then RawIgnore
                   else (case rawDelta chunk of
                           None \<Rightarrow> RawIgnore
                         | Some d \<Rightarrow>
                             (case getProp d ''content'' of
                                None \<Rightarrow> RawIgnore
                              | Some c \<Rightarrow> if truthy c then RawYield c else RawIgnore))))
      else RawIgnore)"

fun processLinesRaw ::
  "(string \<Rightarrow> JsonValue option) \<Rightarrow> string list \<Rightarrow> JsonValue list \<times> bool" where
  "processLinesRaw JSON_parse [] = ([], False)"
| "processLinesRaw JSON_parse (line # lines) =
     (case processLineRaw JSON_parse line of
        RawDone \<Rightarrow> ([], True)
      | RawYield c \<Rightarrow> (let (ts, d) = processLinesRaw JSON_parse lines in (c # ts, d))
      | RawIgnore \<Rightarrow> processLinesRaw JSON_parse lines)"

fun readLoopRaw ::
  "(string \<Rightarrow> JsonValue option) \<Rightarrow> string \<Rightarrow> string list \<Rightarrow> ReadEnd \<Rightarrow>
     JsonValue list \<times> StreamEnd" where
  "readLoopRaw JSON_parse buffer [] rend =
     ([], case rend of EndOfStream \<Rightarrow> Completed | ReadFailed m \<Rightarrow> Threw (FetchFailed m))"
| "readLoopRaw JSON_parse buffer (chunk # rest) rend =
     (let lines = split_nl (buffer @ chunk);
          (ts, d) = processLinesRaw JSON_parse (butlast lines)
      in if d then (ts, Completed)
         else (let (ts', e) = readLoopRaw JSON_parse (last lines) rest rend in (ts @ ts', e)))"

definition streamChatRaw ::
  "(string \<Rightarrow> JsonValue option) \<Rightarrow> (RequestBody \<Rightarrow> 'a FetchResult) \<Rightarrow>
     ChatMessage list \<Rightarrow> string \<Rightarrow> ChatOptions \<Rightarrow> JsonValue list \<times> StreamEnd" where
  "streamChatRaw JSON_parse backend messages m options =
     (case backend (streamChat_body messages m options) of
        Rejected msg \<Rightarrow> ([], Threw (FetchFailed msg))
      | Responded response \<Rightarrow>
          if \<not> ok response then ([], Threw (ApiError (status response) (bodyText response)))
          else (case body response of
                  None \<Rightarrow> ([], Threw NoResponseBody)
                | Some (chunks, rend) \<Rightarrow> readLoopRaw JSON_parse [] chunks rend))"

text \<open>
  A value of the declared type as the value the parser returns for it: an object with
  the properties that are present.
\<close>

definition optProp :: "string \<Rightarrow> ('a \<Rightarrow> JsonValue) \<Rightarrow> 'a option \<Rightarrow> (string \<times> JsonValue) list" where
  "optProp k f v = (case v of None \<Rightarrow> [] | Some x \<Rightarrow> [(k, f x)])"

definition deltaJson :: "Delta \<Rightarrow> JsonValue" where
  "deltaJson d =
     JObject (optProp ''role'' JString (delta_role d) @ optProp ''content'' JString (delta_content d))"

definition choiceJson :: "Choice \<Rightarrow> JsonValue" where
  "choiceJson c =
     JObject (optProp ''delta'' deltaJson (delta c)
              @ optProp ''finish_reason'' JString (finish_reason c))"

definition chunkJson :: "StreamChunk \<Rightarrow> JsonValue" where
  "chunkJson chunk = JObject (optProp ''choices'' (\<lambda>cs. JArray (map choiceJson cs)) (choices chunk))"

text \<open>An event of the generator on typed fragments, as an event on values.\<close>

definition rawEvent :: "LineEvent \<Rightarrow> RawEvent" where
  "rawEvent e = (case e of Ignore \<Rightarrow> RawIgnore | Yield c \<Rightarrow> RawYield (JString c) | Done \<Rightarrow> RawDone)"

section \<open>Model directory (class ModelManager)\<close>

text \<open>The module that the engines import as \<^verbatim>\<open>./models.js\<close>.\<close>

text \<open>
  \<^verbatim>\<open>Model { id: string; name?: string; description?: string; context_length?: number;
            pricing?: { prompt?: number; completion?: number }; top_provider?: string;
            created?: number }\<close>
\<close>

record Pricing =
  prompt :: "real option"
  completion :: "real option"

record Model =
  model_id :: string
  model_name :: "string option"
  description :: "string option"
  context_length :: "nat option"
  pricing :: "Pricing option"
  top_provider :: "string option"
  created :: "int option"

text \<open>The JSON answer to \<^verbatim>\<open>GET /models\<close>, \<^verbatim>\<open>{ data: Model[] }\<close>.\<close>

record ModelsResponse =
  data :: "Model list option"

text \<open>
  \<open>OpenRouterClient.getModels\<close>:
  \<^verbatim>\<open>
  async getModels(): Promise<Model[]> {
    try {
      const response = await this.makeRequest<{ data: Model[] }>('/models');
      return response.data || [];
    } catch (error) {
      console.error(chalk.red('Failed to fetch models:', (error as Error).message));
      return [];
    }
  }
  \<close>
  The result is a sum, as for every asynchronous call; this one never is an error.
\<close>

definition getModels :: "(nat \<Rightarrow> ModelsResponse FetchResult) \<Rightarrow> error + Model list" where
  "getModels fetch =
     (case result (makeRequest fetch) of
        Inr response \<Rightarrow> Inr (case data response of None \<Rightarrow> [] | Some ms \<Rightarrow> ms)
      | Inl e \<Rightarrow> Inr [])"

text \<open>
  \<open>ModelManager.fetchModels\<close>:
  \<^verbatim>\<open>
  private models: Model[] = [];
  private lastFetch: number | null = null;
  private readonly cacheTimeout = 300000; // 5 minutes

  async fetchModels(force: boolean = false): Promise<Model[]> {
    if (!force && this.lastFetch && Date.now() - this.lastFetch < this.cacheTimeout) {
      return this.models;
    }
    try {
      this.models = await this.client.getModels();
      this.lastFetch = Date.now();
      return this.models;
    } catch (error) {
      throw error;
    }
  }
  \<close>
  \<open>now\<close> is the clock at the test of the cache and \<open>now'\<close> the clock after the fetch.
  A run gives the result, the manager afterwards and the number of HTTP requests made.
\<close>

record ModelManager =
  mm_models :: "Model list"
  mm_lastFetch :: "int option"

definition cacheTimeout :: int where
  "cacheTimeout = 300000"

record FetchModelsRun =
  outcome :: "error + Model list"
  manager :: ModelManager
  fetches :: nat

definition cacheFresh :: "ModelManager \<Rightarrow> int \<Rightarrow> bool" where
  "cacheFresh mm now =
     (case mm_lastFetch mm of None \<Rightarrow> False | Some t \<Rightarrow> t \<noteq> 0 \<and> now - t < cacheTimeout)"

definition fetchModels ::
  "ModelManager \<Rightarrow> bool \<Rightarrow> int \<Rightarrow> int \<Rightarrow> (nat \<Rightarrow> ModelsResponse FetchResult) \<Rightarrow> FetchModelsRun" where
  "fetchModels mm force now now' fetch =
     (if \<not> force \<and> cacheFresh mm now then
        \<lparr>outcome = Inr (mm_models mm), manager = mm, fetches = 0\<rparr>
      else
        (case getModels fetch of
           Inr ms \<Rightarrow> \<lparr>outcome = Inr ms,
                     manager = \<lparr>mm_models = ms, mm_lastFetch = Some now'\<rparr>,
                     fetches = attempts (makeRequest fetch)\<rparr>
         | Inl e \<Rightarrow> \<lparr>outcome = Inl e, manager = mm, fetches = attempts (makeRequest fetch)\<rparr>))"

section \<open>Parallel chat engine (lib/parallel-chat.ts, \<^verbatim>\<open>sendMessage\<close>)\<close>

text \<open>
  \<^verbatim>\<open>
  this.conversation.push({ role: 'user', content });
  const responses: { [model: string]: string } = {};
  const streamingState: { [model: string]: boolean } = {};
  this.activeModels.forEach(model => { responses[model] = ''; streamingState[model] = true; });

  const promises = this.activeModels.map(async (model) => {
    try {
      const conversationForModel = this.conversation.filter(
        msg => msg.role !== 'assistant' || msg.model === model);
      const stream = this.client.streamChat(conversationForModel, model,
        { temperature: this.currentProfile.temperature,
          maxTokens: this.currentProfile.maxTokens, stream: true });
      let fullResponse = '';
      for await (const chunk of stream) {
        fullResponse += chunk;
        responses[model] = fullResponse;
      }
      streamingState[model] = false;
      this.conversation.push({ role: 'assistant', content: fullResponse, model });
      return { model, content: fullResponse };
    } catch (error) {
      streamingState[model] = false;
      return { model, content: '', error: (error as Error).message };
    }
  });
  await Promise.all(promises);
  \<close>
  Each call of the \<^verbatim>\<open>async\<close> function is a task. It runs without interruption up to its
  first \<^verbatim>\<open>await\<close>, so every task filters the conversation and issues its request before
  any task resumes; from then on the tasks resume one at a time, in an order that the
  arrival of the tokens decides. A task is the model, the tokens its stream has yet to
  deliver and the way the stream ends after them, the local \<^verbatim>\<open>fullResponse\<close>, and the
  value its promise has resolved to, if it has.
\<close>

record Outcome =
  out_model :: string
  out_content :: string
  out_error :: "string option"

record Task =
  task_model :: string
  pending :: "string list"
  ending :: StreamEnd
  fullResponse :: string
  settled :: "Outcome option"

record Turn =
  conversation :: "ChatMessage list"
  responses :: "string \<rightharpoonup> string"
  streamingState :: "string \<rightharpoonup> bool"
  tasks :: "Task list"

text \<open>The synchronous part of \<^verbatim>\<open>sendMessage\<close>, up to the first \<^verbatim>\<open>await\<close> of every task.\<close>

definition startTask ::
  "(string \<Rightarrow> StreamChunk option) \<Rightarrow> (RequestBody \<Rightarrow> 'a FetchResult) \<Rightarrow> Profile \<Rightarrow>
     ChatMessage list \<Rightarrow> string \<Rightarrow> Task" where
  "startTask JSON_parse backend currentProfile conv m =
     (let (tokens, e) = streamChat JSON_parse backend (conversationForModel conv m) m
                          (profileOptions currentProfile)
      in \<lparr>task_model = m, pending = tokens, ending = e, fullResponse = [], settled = None\<rparr>)"

definition startTurn ::
  "(string \<Rightarrow> StreamChunk option) \<Rightarrow> (RequestBody \<Rightarrow> 'a FetchResult) \<Rightarrow> Profile \<Rightarrow>
     string list \<Rightarrow> ChatMessage list \<Rightarrow> string \<Rightarrow> Turn" where
  "startTurn JSON_parse backend currentProfile activeModels conv input =
     \<lparr>conversation = conv @ [userMessage input],
      responses = fold (\<lambda>m r. r(m \<mapsto> [])) activeModels Map.empty,
      streamingState = fold (\<lambda>m s. s(m \<mapsto> True)) activeModels Map.empty,
      tasks = map (startTask JSON_parse backend currentProfile (conv @ [userMessage input]))
                activeModels\<rparr>"

text \<open>
  Task \<open>i\<close> resumes once: it takes the next token of its stream, or finds the stream ended
  and resolves, or finds it failed and resolves through the \<^verbatim>\<open>catch\<close> block. A task that
  has resolved does nothing more.
\<close>

definition step :: "nat \<Rightarrow> Turn \<Rightarrow> Turn" where
  "step i turn =
     (if i < length (tasks turn) then
        (let t = tasks turn ! i; m = task_model t in
         case settled t of
           Some out \<Rightarrow> turn
         | None \<Rightarrow>
             (case pending t of
                chunk # rest \<Rightarrow>
                  turn\<lparr>responses := (responses turn)(m \<mapsto> fullResponse t @ chunk),
                       tasks := (tasks turn)[i := t\<lparr>pending := rest,
                                                    fullResponse := fullResponse t @ chunk\<rparr>]\<rparr>
              | [] \<Rightarrow>
                  (case ending t of
                     Completed \<Rightarrow>
                       turn\<lparr>conversation := conversation turn @ [assistantMessage m (fullResponse t)],
                            streamingState := (streamingState turn)(m \<mapsto> False),
                            tasks := (tasks turn)[i := t\<lparr>settled :=
                               Some \<lparr>out_model = m, out_content = fullResponse t,
                                     out_error = None\<rparr>\<rparr>]\<rparr>
                   | Threw e \<Rightarrow>
                       turn\<lparr>streamingState := (streamingState turn)(m \<mapsto> False),
                            tasks := (tasks turn)[i := t\<lparr>settled :=
                               Some \<lparr>out_model = m, out_content = [],
                                     out_error = Some (message e)\<rparr>\<rparr>]\<rparr>)))
      else turn)"

text \<open>A schedule is the order in which the tasks resume.\<close>

definition run :: "nat list \<Rightarrow> Turn \<Rightarrow> Turn" where
  "run schedule turn = fold step schedule turn"

text \<open>\<^verbatim>\<open>Promise.all(promises)\<close> resolves when every promise has, to the list of their
  values in the order of \<^verbatim>\<open>activeModels\<close>.\<close>

definition Promise_all :: "Turn \<Rightarrow> Outcome list option" where
  "Promise_all turn =
     (if \<forall>t \<in> set (tasks turn). settled t \<noteq> None
      then Some (map (\<lambda>t. the (settled t)) (tasks turn)) else None)"

text \<open>
  Every stream is finite, so every task resolves: whatever the schedule has left undone
  is done before \<^verbatim>\<open>await Promise.all(promises)\<close> returns. \<open>sendMessage\<close> is the turn at
  that point.
\<close>

definition finishTask :: "nat \<Rightarrow> Turn \<Rightarrow> Turn" where
  "finishTask i turn = run (replicate (Suc (length (pending (tasks turn ! i)))) i) turn"

definition drain :: "Turn \<Rightarrow> Turn" where
  "drain turn = fold finishTask [0..<length (tasks turn)] turn"

definition sendMessage ::
  "(string \<Rightarrow> StreamChunk option) \<Rightarrow> (RequestBody \<Rightarrow> 'a FetchResult) \<Rightarrow> Profile \<Rightarrow>
     string list \<Rightarrow> ChatMessage list \<Rightarrow> string \<Rightarrow> nat list \<Rightarrow> Turn" where
  "sendMessage JSON_parse backend currentProfile activeModels conv input schedule =
     drain (run schedule (startTurn JSON_parse backend currentProfile activeModels conv input))"

subsection \<open>What a task comes to\<close>

text \<open>
  The task once its stream is used up: \<open>fullResponse\<close> holds all the tokens, and the
  promise has resolved to the content, or to the error of a failed stream.
\<close>

definition finish :: "Task \<Rightarrow> Task" where
  "finish t =
     (case settled t of
        Some out \<Rightarrow> t
      | None \<Rightarrow>
          t\<lparr>pending := [],
            fullResponse := fullResponse t @ concat (pending t),
            settled := Some (case ending t of
                               Completed \<Rightarrow> \<lparr>out_model = task_model t,
                                              out_content = fullResponse t @ concat (pending t),
                                              out_error = None\<rparr>
                             | Threw e \<Rightarrow> \<lparr>out_model = task_model t, out_content = [],
                                            out_error = Some (message e)\<rparr>)\<rparr>)"

text \<open>The assistant messages of the tasks that have resolved with a content, in the
  order of \<^verbatim>\<open>activeModels\<close>.\<close>

definition completed :: "Task \<Rightarrow> bool" where
  "completed t = (settled t \<noteq> None \<and> ending t = Completed)"

definition completedMessages :: "Task list \<Rightarrow> ChatMessage list" where
  "completedMessages ts =
     map (\<lambda>t. assistantMessage (task_model t) (fullResponse t)) (filter completed ts)"


section \<open>Sequential chat engine (lib/chat.ts)\<close>

text \<open>
  \<^verbatim>\<open>
  private async streamModelResponse(model: string): Promise<void> {
    const conversationForModel = this.conversation.filter(
      msg => msg.role !== 'assistant' || msg.model === model);
    let fullResponse = '';
    try {
      const stream = this.client.streamChat(conversationForModel, model,
        { temperature: this.currentProfile.temperature,
          maxTokens: this.currentProfile.maxTokens, stream: true });
      for await (const chunk of stream) { fullResponse += chunk; streamBox.printChunk(chunk); }
      this.conversation.push({ role: 'assistant', content: fullResponse, model });
    } catch (error) {
      streamBox.printChunk(chalk.red(`Error: ${(error as Error).message}`));
    }
  }

  private async sendMessage(content: string): Promise<void> {
    this.conversation.push({ role: 'user', content });
    // Process models sequentially to avoid overlapping streams
    for (const model of this.activeModels) { await this.streamModelResponse(model); }
  }
  \<close>
  The state is the conversation; what is printed is left out.
\<close>

definition streamModelResponse ::
  "(string \<Rightarrow> StreamChunk option) \<Rightarrow> (RequestBody \<Rightarrow> 'a FetchResult) \<Rightarrow> Profile \<Rightarrow>
     string \<Rightarrow> ChatMessage list \<Rightarrow> ChatMessage list" where
  "streamModelResponse JSON_parse backend currentProfile m conv =
     (case streamChat JSON_parse backend (conversationForModel conv m) m
             (profileOptions currentProfile) of
        (tokens, Completed) \<Rightarrow> conv @ [assistantMessage m (concat tokens)]
      | (tokens, Threw e) \<Rightarrow> conv)"

definition chatSendMessage ::
  "(string \<Rightarrow> StreamChunk option) \<Rightarrow> (RequestBody \<Rightarrow> 'a FetchResult) \<Rightarrow> Profile \<Rightarrow>
     string list \<Rightarrow> ChatMessage list \<Rightarrow> string \<Rightarrow> ChatMessage list" where
  "chatSendMessage JSON_parse backend currentProfile activeModels conv input =
     fold (streamModelResponse JSON_parse backend currentProfile) activeModels
       (conv @ [userMessage input])"

section \<open>Ink chat engine (components/ChatInterface.tsx and components/App.tsx)\<close>

text \<open>
  ChatInterface.tsx, \<open>sendMessage\<close>, after the view is built:
  \<^verbatim>\<open>
      let fullResponse = '';
      for await (const chunk of stream) {
        fullResponse += chunk;
        setStreamingData(prev => ({ ...prev, [model]: { content: fullResponse, isStreaming: true } }));
      }
      setStreamingData(prev => ({ ...prev, [model]: { content: fullResponse, isStreaming: false } }));
      return { role: 'assistant' as const, content: fullResponse, model };
    } catch (error) {
      setStreamingData(prev => ({ ...prev,
        [model]: { content: '', isStreaming: false, error: (error as Error).message } }));
      return { role: 'assistant' as const, content: '', model, error: (error as Error).message };
    }
  });
  const responses = await Promise.all(promises);
  if (onComplete) { onComplete(responses); }
  \<close>
  App.tsx:
  \<^verbatim>\<open>
  const handleComplete = useCallback((responses: ChatMessage[]) => {
    setConversation(prev => [...prev, ...responses]);
    setIsWaitingForResponse(false);
  }, []);
  \<close>
  Here the conversation changes once, after the join, by the responses in the order of
  the models, so the order of completion plays no part. A response is a \<open>ChatMessage\<close>;
  the property \<^verbatim>\<open>error\<close>, which that interface does not have, is kept in the accumulator
  only.
\<close>

record StreamingEntry =
  sd_content :: string
  sd_isStreaming :: bool
  sd_error :: "string option"

definition inkResponse ::
  "(string \<Rightarrow> StreamChunk option) \<Rightarrow> (RequestBody \<Rightarrow> 'a FetchResult) \<Rightarrow> Profile \<Rightarrow>
     ChatMessage list \<Rightarrow> string \<Rightarrow> string \<Rightarrow> ChatMessage \<times> StreamingEntry" where
  "inkResponse JSON_parse backend currentProfile conv input m =
     (case streamChat JSON_parse backend (inkConversationForModel conv m input) m
             (profileOptions currentProfile) of
        (tokens, Completed) \<Rightarrow>
          (assistantMessage m (concat tokens),
           \<lparr>sd_content = concat tokens, sd_isStreaming = False, sd_error = None\<rparr>)
      | (tokens, Threw e) \<Rightarrow>
          (assistantMessage m [],
           \<lparr>sd_content = [], sd_isStreaming = False, sd_error = Some (message e)\<rparr>))"

text \<open>The conversation of \<open>App\<close> after the turn; \<open>conv\<close> ends with the user message.\<close>

definition inkTurn ::
  "(string \<Rightarrow> StreamChunk option) \<Rightarrow> (RequestBody \<Rightarrow> 'a FetchResult) \<Rightarrow> Profile \<Rightarrow>
     string list \<Rightarrow> ChatMessage list \<Rightarrow> string \<Rightarrow> ChatMessage list" where
  "inkTurn JSON_parse backend currentProfile ms conv input =
     conv @ map (\<lambda>m. fst (inkResponse JSON_parse backend currentProfile conv input m)) ms"

section \<open>Storage of the API key (lib/utils.ts, \<^verbatim>\<open>encrypt\<close> and \<^verbatim>\<open>decrypt\<close>)\<close>

text \<open>
  \<^verbatim>\<open>
  const ENCRYPTION_KEY = 'orb-cli-simple-key-2025';

  export function encrypt(text: string): string {
    const key = crypto.scryptSync(ENCRYPTION_KEY, 'salt', 32);
    const iv = Buffer.alloc(16, 0);
    const cipher = crypto.createCipheriv('aes-256-cbc', key, iv);
    let encrypted = cipher.update(text, 'utf8', 'hex');
    encrypted += cipher.final('hex');
    return encrypted;
  }

  export function decrypt(text: string): string {
    try {
      const key = crypto.scryptSync(ENCRYPTION_KEY, 'salt', 32);
      const iv = Buffer.alloc(16, 0);
      const decipher = crypto.createDecipheriv('aes-256-cbc', key, iv);
      let decrypted = decipher.update(text, 'hex', 'utf8');
      decrypted += decipher.final('utf8');
      return decrypted;
    } catch (error) {
      throw new Error('Failed to decrypt API key. It may be corrupted.');
    }
  }
  \<close>
  The functions of the platform's \<^verbatim>\<open>crypto\<close> module are modelled as far as the code
  fixes them: the encodings \<^verbatim>\<open>'utf8'\<close> and \<^verbatim>\<open>'hex'\<close>, the mode CBC with the padding
  that \<^verbatim>\<open>createCipheriv\<close> applies by default (PKCS#7), the block size of AES, the key
  derivation call and the initialisation vector of sixteen zero bytes. The key
  derivation \<open>scryptSync\<close> and the two block functions of AES-256 are parameters.

  The text to protect is a JavaScript string, the list of its UTF-16 code units, in which
  a surrogate may stand without its partner. A ciphertext is a string of hex digits and
  is written as a HOL string.
\<close>

type_synonym byte = "8 word"

type_synonym jsString = "16 word list"

subsection \<open>Encodings\<close>

text \<open>
  The encoding \<^verbatim>\<open>'utf8'\<close> of a string, on the numbers of the code units: a high surrogate
  followed by a low one is one code point of four bytes, every other surrogate is
  replaced by U+FFFD (the bytes EF BF BD), and every other code unit is a code point of
  one, two or three bytes.
\<close>

definition isHighSurrogate :: "nat \<Rightarrow> bool" where
  "isHighSurrogate u = (0xD800 \<le> u \<and> u \<le> 0xDBFF)"

definition isLowSurrogate :: "nat \<Rightarrow> bool" where
  "isLowSurrogate u = (0xDC00 \<le> u \<and> u \<le> 0xDFFF)"

definition codePoint :: "nat \<Rightarrow> nat \<Rightarrow> nat" where
  "codePoint hi lo = 0x10000 + (hi - 0xD800) * 0x400 + (lo - 0xDC00)"

definition encodeCodePoint :: "nat \<Rightarrow> nat list" where
  "encodeCodePoint cp =
     (if cp < 0x80 then [cp]
      else if cp < 0x800 then [0xC0 + cp div 0x40, 0x80 + cp mod 0x40]
      else if cp < 0x10000 then
        [0xE0 + cp div 0x1000, 0x80 + cp div 0x40 mod 0x40, 0x80 + cp mod 0x40]
      else [0xF0 + cp div 0x40000, 0x80 + cp div 0x1000 mod 0x40,
            0x80 + cp div 0x40 mod 0x40, 0x80 + cp mod 0x40])"

fun encodeUtf8 :: "nat list \<Rightarrow> nat list" where
  "encodeUtf8 [] = []"
| "encodeUtf8 (u # us) =
     (if isHighSurrogate u then
        (case us of
           [] \<Rightarrow> encodeCodePoint 0xFFFD
         | l # rest \<Rightarrow>
             if isLowSurrogate l then encodeCodePoint (codePoint u l) @ encodeUtf8 rest
             else encodeCodePoint 0xFFFD @ encodeUtf8 us)
      else if isLowSurrogate u then encodeCodePoint 0xFFFD @ encodeUtf8 us
      else encodeCodePoint u @ encodeUtf8 us)"

definition utf8Bytes :: "jsString \<Rightarrow> byte list" where
  "utf8Bytes s = map of_nat (encodeUtf8 (map unat s))"

text \<open>
  The decoding \<^verbatim>\<open>'utf8'\<close> of bytes, on their numbers: a well-formed sequence of one to
  four bytes is its code point, as one code unit or as a surrogate pair; a byte that
  begins no well-formed sequence, and a sequence that breaks off, is replaced by U+FFFD,
  and decoding goes on with the byte at which the sequence broke off.
\<close>

definition isContinuation :: "nat \<Rightarrow> bool" where
  "isContinuation b = (0x80 \<le> b \<and> b \<le> 0xBF)"

text \<open>The second byte of a sequence of three or four bytes has a narrower range after
  the lead bytes E0, ED, F0 and F4: no overlong form, no surrogate, nothing above
  U+10FFFF.\<close>

definition secondByte :: "nat \<Rightarrow> nat \<Rightarrow> bool" where
  "secondByte lead b =
     ((if lead = 0xE0 then 0xA0 else if lead = 0xF0 then 0x90 else 0x80) \<le> b
      \<and> b \<le> (if lead = 0xED then 0x9F else if lead = 0xF4 then 0x8F else 0xBF))"

definition codeUnits :: "nat \<Rightarrow> nat list" where
  "codeUnits cp =
     (if cp < 0x10000 then [cp]
      else [0xD800 + (cp - 0x10000) div 0x400, 0xDC00 + (cp - 0x10000) mod 0x400])"

text \<open>The code units of the sequence that the byte \<open>b\<close> begins, and how many of the bytes
  after \<open>b\<close> belong to it.\<close>

definition decodeSequence :: "nat \<Rightarrow> nat list \<Rightarrow> nat list \<times> nat" where
  "decodeSequence b bs =
     (if b < 0x80 then ([b], 0)
      else if 0xC2 \<le> b \<and> b \<le> 0xDF then
        (case bs of
           c1 # _ \<Rightarrow>
             if isContinuation c1 then ([(b - 0xC0) * 0x40 + (c1 - 0x80)], 1)
             else ([0xFFFD], 0)
         | [] \<Rightarrow> ([0xFFFD], 0))
      else if 0xE0 \<le> b \<and> b \<le> 0xEF then
        (case bs of
           c1 # c2 # _ \<Rightarrow>
             if \<not> secondByte b c1 then ([0xFFFD], 0)
             else if \<not> isContinuation c2 then ([0xFFFD], 1)
             else ([(b - 0xE0) * 0x1000 + (c1 - 0x80) * 0x40 + (c2 - 0x80)], 2)
         | [c1] \<Rightarrow> if secondByte b c1 then ([0xFFFD], 1) else ([0xFFFD], 0)
         | [] \<Rightarrow> ([0xFFFD], 0))
      else if 0xF0 \<le> b \<and> b \<le> 0xF4 then
        (case bs of
           c1 # c2 # c3 # _ \<Rightarrow>
             if \<not> secondByte b c1 then ([0xFFFD], 0)
             else if \<not> isContinuation c2 then ([0xFFFD], 1)
             else if \<not> isContinuation c3 then ([0xFFFD], 2)
             else (codeUnits ((b - 0xF0) * 0x40000 + (c1 - 0x80) * 0x1000
                              + (c2 - 0x80) * 0x40 + (c3 - 0x80)), 3)
         | [c1, c2] \<Rightarrow>
             if \<not> secondByte b c1 then ([0xFFFD], 0)
             else if \<not> isContinuation c2 then ([0xFFFD], 1)
             else ([0xFFFD], 2)
         | [c1] \<Rightarrow> if secondByte b c1 then ([0xFFFD], 1) else ([0xFFFD], 0)
         | [] \<Rightarrow> ([0xFFFD], 0))
      else ([0xFFFD], 0))"

function decodeUtf8 :: "nat list \<Rightarrow> nat list" where
  "decodeUtf8 [] = []"
| "decodeUtf8 (b # bs) =
     fst (decodeSequence b bs) @ decodeUtf8 (drop (snd (decodeSequence b bs)) bs)"
  by pat_completeness auto
termination
  by (relation "measure length") auto

definition utf8String :: "byte list \<Rightarrow> jsString" where
  "utf8String bs = map of_nat (decodeUtf8 (map unat bs))"

text \<open>\<^verbatim>\<open>s.isWellFormed()\<close>: every surrogate of the string is half of a pair.\<close>

fun wellFormedUnits :: "nat list \<Rightarrow> bool" where
  "wellFormedUnits [] = True"
| "wellFormedUnits (u # us) =
     (if isHighSurrogate u then
        (case us of [] \<Rightarrow> False | l # rest \<Rightarrow> isLowSurrogate l \<and> wellFormedUnits rest)
      else \<not> isLowSurrogate u \<and> wellFormedUnits us)"

definition isWellFormed :: "jsString \<Rightarrow> bool" where
  "isWellFormed s = wellFormedUnits (map unat s)"

text \<open>\<^verbatim>\<open>s.toWellFormed()\<close>: the string with every surrogate that is not half of a pair
  replaced by U+FFFD.\<close>

fun toWellFormedUnits :: "nat list \<Rightarrow> nat list" where
  "toWellFormedUnits [] = []"
| "toWellFormedUnits (u # us) =
     (if isHighSurrogate u then
        (case us of
           [] \<Rightarrow> [0xFFFD]
         | l # rest \<Rightarrow>
             if isLowSurrogate l then u # l # toWellFormedUnits rest
             else 0xFFFD # toWellFormedUnits us)
      else if isLowSurrogate u then 0xFFFD # toWellFormedUnits us
      else u # toWellFormedUnits us)"

definition toWellFormed :: "jsString \<Rightarrow> jsString" where
  "toWellFormed s = map of_nat (toWellFormedUnits (map unat s))"

text \<open>A string of characters below U+0100 as a JavaScript string.\<close>

definition latin1 :: "string \<Rightarrow> jsString" where
  "latin1 s = map (\<lambda>c. of_nat (of_char c)) s"

definition hexDigit :: "nat \<Rightarrow> char" where
  "hexDigit n = (if n < 10 then char_of (48 + n) else char_of (87 + n))"

definition toHex :: "byte list \<Rightarrow> string" where
  "toHex bs = concat (map (\<lambda>b. [hexDigit (unat b div 16), hexDigit (unat b mod 16)]) bs)"

text \<open>Decoding of \<^verbatim>\<open>'hex'\<close> input stops at the first pair that is not two hex digits.
  (A string of odd length does not get here: \<^verbatim>\<open>update\<close> refuses it, see \<open>decrypt\<close>.)\<close>

fun fromHex :: "string \<Rightarrow> byte list" where
  "fromHex (a # b # rest) =
     (case (digitValue a, digitValue b) of
        (Some x, Some y) \<Rightarrow> of_nat (x * 16 + y) # fromHex rest
      | _ \<Rightarrow> [])"
| "fromHex _ = []"

subsection \<open>CBC with PKCS#7 padding\<close>

definition blockSize :: nat where
  "blockSize = 16"

definition pkcs7Pad :: "byte list \<Rightarrow> byte list" where
  "pkcs7Pad bs =
     (let n = blockSize - length bs mod blockSize in bs @ replicate n (of_nat n))"

definition pkcs7Unpad :: "byte list \<Rightarrow> byte list option" where
  "pkcs7Unpad bs =
     (if bs = [] then None
      else (let n = unat (last bs) in
            if 1 \<le> n \<and> n \<le> blockSize \<and> n \<le> length bs
               \<and> (\<forall>b \<in> set (drop (length bs - n) bs). b = last bs)
            then Some (take (length bs - n) bs) else None))"

function blocks :: "byte list \<Rightarrow> byte list list" where
  "blocks bs = (if bs = [] then [] else take blockSize bs # blocks (drop blockSize bs))"
  by pat_completeness auto
termination
  by (relation "measure length") (auto simp: blockSize_def)

declare blocks.simps [simp del]

definition xorBlock :: "byte list \<Rightarrow> byte list \<Rightarrow> byte list" where
  "xorBlock a b = map2 (XOR) a b"

fun cbcEncrypt :: "(byte list \<Rightarrow> byte list) \<Rightarrow> byte list \<Rightarrow> byte list list \<Rightarrow> byte list list" where
  "cbcEncrypt E prev [] = []"
| "cbcEncrypt E prev (p # ps) = E (xorBlock p prev) # cbcEncrypt E (E (xorBlock p prev)) ps"

fun cbcDecrypt :: "(byte list \<Rightarrow> byte list) \<Rightarrow> byte list \<Rightarrow> byte list list \<Rightarrow> byte list list" where
  "cbcDecrypt D prev [] = []"
| "cbcDecrypt D prev (c # cs) = xorBlock (D c) prev # cbcDecrypt D c cs"

subsection \<open>\<^verbatim>\<open>encrypt\<close> and \<^verbatim>\<open>decrypt\<close>\<close>

definition ENCRYPTION_KEY :: string where
  "ENCRYPTION_KEY = ''orb-cli-simple-key-2025''"

text \<open>\<^verbatim>\<open>Buffer.alloc(16, 0)\<close>\<close>

definition zeroIv :: "byte list" where
  "zeroIv = replicate 16 0"

definition encrypt ::
  "(string \<Rightarrow> string \<Rightarrow> nat \<Rightarrow> byte list) \<Rightarrow> (byte list \<Rightarrow> byte list \<Rightarrow> byte list) \<Rightarrow>
     jsString \<Rightarrow> string" where
  "encrypt scryptSync aesEncryptBlock txt =
     (let key = scryptSync ENCRYPTION_KEY ''salt'' 32 in
      toHex (concat (cbcEncrypt (aesEncryptBlock key) zeroIv (blocks (pkcs7Pad (utf8Bytes txt))))))"

text \<open>
  \<^verbatim>\<open>decipher.update(text, 'hex', 'utf8')\<close> throws when the length of \<^verbatim>\<open>text\<close> is odd
  (the platform checks a string against its encoding); \<^verbatim>\<open>decipher.final\<close> throws when
  the data is not a positive number of whole blocks or the padding is wrong. The
  \<^verbatim>\<open>catch\<close> block turns every error into the one below.
\<close>

datatype decrypt_error = DecryptFailed

definition decrypt ::
  "(string \<Rightarrow> string \<Rightarrow> nat \<Rightarrow> byte list) \<Rightarrow> (byte list \<Rightarrow> byte list \<Rightarrow> byte list) \<Rightarrow>
     string \<Rightarrow> decrypt_error + jsString" where
  "decrypt scryptSync aesDecryptBlock txt =
     (let key = scryptSync ENCRYPTION_KEY ''salt'' 32;
          ct = fromHex txt
      in if odd (length txt) then Inl DecryptFailed
         else if ct = [] \<or> length ct mod blockSize \<noteq> 0 then Inl DecryptFailed
         else (case pkcs7Unpad (concat (cbcDecrypt (aesDecryptBlock key) zeroIv (blocks ct))) of
                 None \<Rightarrow> Inl DecryptFailed
               | Some bs \<Rightarrow> Inr (utf8String bs)))"
section \<open>Sample transports and turns\<close>



definition respond :: "nat \<Rightarrow> string option \<Rightarrow> string \<Rightarrow> 'a option \<Rightarrow> 'a FetchResult" where
  "respond st ra txt js =
     Responded \<lparr>status = st, retryAfter = ra, bodyText = txt, json = js, body = None\<rparr>"

text \<open>A backend that answers every attempt with status 500 and the body "boom".\<close>

definition always500 :: "nat \<Rightarrow> nat FetchResult" where
  "always500 n = respond 500 None ''boom'' None"

text \<open>A backend that answers 429 three times (the second time with \<^verbatim>\<open>Retry-After: 5\<close>)
  and would answer 200 with the JSON value 7 from the fourth attempt on.\<close>

definition three429 :: "nat \<Rightarrow> nat FetchResult" where
  "three429 n = (if n = 0 then respond 429 None [] None
                 else if n = 1 then respond 429 (Some ''5'') [] None
                 else if n = 2 then respond 429 None [] None
                 else respond 200 None ''{}'' (Some 7))"

text \<open>
  A parser for the samples: it accepts a payload of the shape
  \<^verbatim>\<open>{"choices":[{"delta":{"content":"..."}}]}\<close> and rejects everything else.
\<close>

definition contentPrefix :: string where
  \<open>contentPrefix = ''{"choices":[{"delta":{"content":"''\<close>

definition contentSuffix :: string where
  \<open>contentSuffix = ''"}}]}''\<close>

definition sampleParse :: "string \<Rightarrow> StreamChunk option" where
  "sampleParse p =
     (let n = length contentPrefix; k = length contentSuffix in
      if n + k \<le> length p \<and> take n p = contentPrefix \<and> drop (length p - k) p = contentSuffix
      then Some \<lparr>choices = Some [\<lparr>delta = Some \<lparr>delta_role = None,
                     delta_content = Some (take (length p - n - k) (drop n p))\<rparr>,
                   finish_reason = None\<rparr>]\<rparr>
      else None)"

definition tokenLine :: "string \<Rightarrow> string" where
  "tokenLine t = ''data: '' @ contentPrefix @ t @ contentSuffix"

text \<open>A backend that streams the given chunks, whatever the request.\<close>

definition streaming :: "string list \<Rightarrow> ReadEnd \<Rightarrow> RequestBody \<Rightarrow> unit FetchResult" where
  "streaming chunks rend request =
     Responded \<lparr>status = 200, retryAfter = None, bodyText = [], json = None,
                body = Some (chunks, rend)\<rparr>"

text \<open>
  An event stream with four token lines, a blank line, a token line with empty content
  and one line of broken JSON, ended by the sentinel and followed by text that is never
  read; it arrives in three chunks that cut lines in the middle.
\<close>

definition sampleBefore :: "string list" where
  "sampleBefore = [tokenLine ''Hel'', tokenLine ''lo'']"

definition sampleBad :: string where
  "sampleBad = ''data: {bad json''"

definition sampleAfter :: "string list" where
  "sampleAfter = [tokenLine '' wor'', [], tokenLine [], tokenLine ''ld'']"

definition sampleRest :: string where
  "sampleRest = CHR 0x0A # tokenLine ''never''"

definition sampleText :: string where
  "sampleText =
     concat (map (\<lambda>l. l @ [CHR 0x0A]) (sampleBefore @ sampleBad # sampleAfter @ [''data: [DONE]'']))
     @ sampleRest"

definition sampleChunks :: "string list" where
  "sampleChunks = [take 50 sampleText, take 100 (drop 50 sampleText), drop 150 sampleText]"

definition noOptions :: ChatOptions where
  "noOptions = \<lparr>opt_temperature = None, opt_maxTokens = None, opt_stream = None\<rparr>"

text \<open>A directory entry, a manager that cached it at time 1000, and a backend that
  cannot be reached.\<close>

definition sampleModel :: Model where
  "sampleModel =
     \<lparr>model_id = ''a'', model_name = None, description = None, context_length = None,
      pricing = None, top_provider = None, created = None\<rparr>"

definition cachedManager :: ModelManager where
  "cachedManager = \<lparr>mm_models = [sampleModel], mm_lastFetch = Some 1000\<rparr>"

definition unreachable :: "nat \<Rightarrow> ModelsResponse FetchResult" where
  "unreachable n = Rejected ''fetch failed''"

text \<open>
  A backend for a turn over the models "a" and "b": it streams "Hel", "lo" to model "a" and
  "Hi" to model "b", and answers 404 to every other model.
\<close>

definition sseBody :: "string list \<Rightarrow> string list" where
  "sseBody tokens = map (\<lambda>t. tokenLine t @ [CHR 0x0A]) tokens @ [''data: [DONE]'' @ [CHR 0x0A]]"

definition twoModels :: "RequestBody \<Rightarrow> unit FetchResult" where
  "twoModels request =
     (if rb_model request = ''a'' then streaming (sseBody [''Hel'', ''lo'']) EndOfStream request
      else if rb_model request = ''b'' then streaming (sseBody [''Hi'']) EndOfStream request
      else respond 404 None ''no such model'' None)"


definition sampleProfile :: Profile where
  "sampleProfile = \<lparr>models = [''a'', ''b''], temperature = 1, maxTokens = 100\<rparr>"

text \<open>
  Stand-ins for the parameters of \<open>encrypt\<close> and \<open>decrypt\<close>: a key derivation that
  repeats the bytes of the password, and a pair of block functions that add the key to
  the block and subtract it again.
\<close>

definition toyScrypt :: "string \<Rightarrow> string \<Rightarrow> nat \<Rightarrow> byte list" where
  "toyScrypt password salt n =
     take n (concat (replicate n (map (\<lambda>c. of_nat (of_char c)) (password @ salt))))"

definition toyEncryptBlock :: "byte list \<Rightarrow> byte list \<Rightarrow> byte list" where
  "toyEncryptBlock key block = map2 (+) block key"

definition toyDecryptBlock :: "byte list \<Rightarrow> byte list \<Rightarrow> byte list" where
  "toyDecryptBlock key block = map2 (-) block key"

text \<open>
  Payloads that are JSON but not of the declared type: a content that is the number 5,
  one that is the empty array, a delta without content, a content that is \<^verbatim>\<open>null\<close>, and
  the payload \<^verbatim>\<open>null\<close>. \<open>looseParse\<close> reads them, and every payload that \<open>sampleParse\<close>
  reads.
\<close>

definition numberPayload :: string where
  \<open>numberPayload = ''{"choices":[{"delta":{"content":5}}]}''\<close>

definition arrayPayload :: string where
  \<open>arrayPayload = ''{"choices":[{"delta":{"content":[]}}]}''\<close>

definition absentPayload :: string where
  \<open>absentPayload = ''{"choices":[{"delta":{"role":"assistant"}}]}''\<close>

definition nullContentPayload :: string where
  \<open>nullContentPayload = ''{"choices":[{"delta":{"content":null}}]}''\<close>

definition fragment :: "(string \<times> JsonValue) list \<Rightarrow> JsonValue" where
  "fragment d = JObject [(''choices'', JArray [JObject [(''delta'', JObject d)]])]"

definition looseParse :: "string \<Rightarrow> JsonValue option" where
  "looseParse p =
     (if p = numberPayload then Some (fragment [(''content'', JNumber (Finite 5))])
      else if p = arrayPayload then Some (fragment [(''content'', JArray [])])
      else if p = absentPayload then Some (fragment [(''role'', JString ''assistant'')])
      else if p = nullContentPayload then Some (fragment [(''content'', JNull)])
      else if p = ''null'' then Some JNull
      else map_option chunkJson (sampleParse p))"

definition looseLines :: "string list" where
  "looseLines =
     [tokenLine ''Hel'', ''data: '' @ numberPayload, ''data: '' @ absentPayload,
      ''data: '' @ nullContentPayload, ''data: null'', tokenLine [], ''data: '' @ arrayPayload,
      ''data: [DONE]'']"

definition looseChunks :: "string list" where
  "looseChunks = map (\<lambda>l. l @ [CHR 0x0A]) looseLines"

section \<open>Properties of the per-model view\<close>

lemma conversationForModel_keeps_others:
  "msg \<in> set conv \<Longrightarrow> role msg \<noteq> Assistant \<Longrightarrow>
     msg \<in> set (conversationForModel conv m)"
  by (simp add: conversationForModel_def)

lemma conversationForModel_assistant:
  "msg \<in> set (conversationForModel conv m) \<Longrightarrow> role msg = Assistant \<Longrightarrow>
     model msg = Some m"
  by (auto simp: conversationForModel_def)

lemma conversationForModel_append:
  "conversationForModel (xs @ ys) m = conversationForModel xs m @ conversationForModel ys m"
  by (simp add: conversationForModel_def)

lemma conversationForModel_idem:
  "conversationForModel (conversationForModel c m) m = conversationForModel c m"
  by (simp add: conversationForModel_def)





section \<open>Retry and backoff of \<^verbatim>\<open>makeRequest\<close>\<close>

lemma loop_returned:
  "attempt < MAX_RETRIES \<Longrightarrow> attemptRequest fetch attempt = Returned v \<Longrightarrow>
     makeRequest_loop fetch attempt l ws = \<lparr>result = Inr v, attempts = Suc attempt, delays = ws\<rparr>"
  by (subst makeRequest_loop.simps) simp

lemma loop_rate_limited:
  "attempt < MAX_RETRIES \<Longrightarrow> attemptRequest fetch attempt = RateLimited d \<Longrightarrow>
     makeRequest_loop fetch attempt l ws = makeRequest_loop fetch (Suc attempt) l (ws @ [d])"
  by (subst makeRequest_loop.simps) simp

lemma loop_caught:
  "attempt < MAX_RETRIES \<Longrightarrow> attemptRequest fetch attempt = Caught e \<Longrightarrow>
     makeRequest_loop fetch attempt l ws =
       makeRequest_loop fetch (Suc attempt) (Some e)
         (if attempt < MAX_RETRIES - 1 then ws @ [Some (INITIAL_RETRY_DELAY * 2 ^ attempt)] else ws)"
  by (subst makeRequest_loop.simps) simp

lemma loop_exhausted:
  "\<not> attempt < MAX_RETRIES \<Longrightarrow>
     makeRequest_loop fetch attempt l ws =
       \<lparr>result = Inl (case l of Some e \<Rightarrow> e | None \<Rightarrow> MaxRetriesExceeded),
        attempts = attempt, delays = ws\<rparr>"
  by (subst makeRequest_loop.simps) simp

lemma loop_attempts_ge: "attempt \<le> attempts (makeRequest_loop fetch attempt l ws)"
proof (induction fetch attempt l ws rule: makeRequest_loop.induct)
  case (1 fetch attempt lastError waited)
  show ?case
  proof (cases "attempt < MAX_RETRIES")
    case False
    then show ?thesis by (simp add: loop_exhausted)
  next
    case True
    show ?thesis
    proof (cases "attemptRequest fetch attempt")
      case (Returned v)
      then show ?thesis using True by (simp add: loop_returned)
    next
      case (RateLimited d)
      then show ?thesis using True "1.IH"(1) [OF True RateLimited]
        by (simp add: loop_rate_limited)
    next
      case (Caught e)
      then show ?thesis using True "1.IH"(2) [OF True Caught]
        by (auto simp: loop_caught split: if_splits)
    qed
  qed
qed

lemma makeRequest_attempts_pos: "0 < attempts (makeRequest fetch)"
proof (cases "attemptRequest fetch 0")
  case (Returned v)
  then show ?thesis by (simp add: makeRequest_def loop_returned MAX_RETRIES_def)
next
  case (RateLimited d)
  then show ?thesis
    using loop_attempts_ge [of "Suc 0" fetch None "[d]"]
    by (simp add: makeRequest_def loop_rate_limited MAX_RETRIES_def)
next
  case (Caught e)
  then show ?thesis
    using loop_attempts_ge [of "Suc 0" fetch "Some e" "[Some (INITIAL_RETRY_DELAY * 2 ^ 0)]"]
    by (simp add: makeRequest_def loop_caught MAX_RETRIES_def)
qed

text \<open>Every response that is neither 2xx nor 429 is followed by another request.\<close>

lemma makeRequest_retries_api_error:
  assumes "fetch 0 = Responded r" and "status r \<noteq> 429" and "\<not> ok r"
  shows "2 \<le> attempts (makeRequest fetch)"
proof -
  have "attemptRequest fetch 0 = Caught (ApiError (status r) (bodyText r))"
    using assms by (simp add: attemptRequest_def)
  then have "makeRequest fetch =
      makeRequest_loop fetch (Suc 0) (Some (ApiError (status r) (bodyText r)))
        [Some (INITIAL_RETRY_DELAY * 2 ^ 0)]"
    by (simp add: makeRequest_def loop_caught MAX_RETRIES_def)
  moreover have "Suc 0 < MAX_RETRIES" by (simp add: MAX_RETRIES_def)
  moreover have "Suc (Suc 0) \<le> attempts (makeRequest_loop fetch (Suc 0) l ws)" for l ws
  proof (cases "attemptRequest fetch (Suc 0)")
    case (Returned v)
    then show ?thesis by (simp add: loop_returned MAX_RETRIES_def)
  next
    case (RateLimited d)
    then show ?thesis
      using loop_attempts_ge [of "Suc (Suc 0)" fetch l "ws @ [d]"]
      by (simp add: loop_rate_limited MAX_RETRIES_def)
  next
    case (Caught e)
    then show ?thesis
      using loop_attempts_ge [of "Suc (Suc 0)" fetch "Some e"]
      by (simp add: loop_caught MAX_RETRIES_def)
  qed
  ultimately show ?thesis by (simp add: numeral_2_eq_2)
qed

text \<open>
  C3. The claim: a response that is neither 2xx nor 429 fails at once, with no retry.
  In \<open>makeRequest\<close> the \<^verbatim>\<open>throw\<close> for such a response is inside the \<^verbatim>\<open>try\<close>
  block, so the \<^verbatim>\<open>catch\<close> block takes it, waits and lets the loop go on: against a
  backend that always answers 500 the call issues three requests and waits 1000 ms and
  2000 ms before it fails with the error of the last response.
\<close>

theorem C3_api_error_is_retried:
  "makeRequest always500 =
     \<lparr>result = Inl (ApiError 500 ''boom''), attempts = 3, delays = [Some 1000, Some 2000]\<rparr>"
  by code_simp

text \<open>
  Three 429 responses use up the three attempts, whatever their headers are: each is
  followed by its wait, the third too, and the loop ends without a fourth request.
\<close>

lemma three_429_exhaust:
  assumes "fetch 0 = Responded r0" and "status r0 = 429"
      and "fetch 1 = Responded r1" and "status r1 = 429"
      and "fetch 2 = Responded r2" and "status r2 = 429"
  shows "makeRequest fetch =
           \<lparr>result = Inl MaxRetriesExceeded, attempts = 3,
            delays = [rateLimitDelay (retryAfter r0) 0, rateLimitDelay (retryAfter r1) 1,
                      rateLimitDelay (retryAfter r2) 2]\<rparr>"
proof -
  have a0: "attemptRequest fetch 0 = RateLimited (rateLimitDelay (retryAfter r0) 0)"
    using assms by (simp add: attemptRequest_def)
  have a1: "attemptRequest fetch (Suc 0) = RateLimited (rateLimitDelay (retryAfter r1) 1)"
    using assms by (simp add: attemptRequest_def)
  have a2: "attemptRequest fetch (Suc (Suc 0)) = RateLimited (rateLimitDelay (retryAfter r2) 2)"
    using assms by (simp add: attemptRequest_def numeral_2_eq_2)
  have "makeRequest fetch = makeRequest_loop fetch (Suc 0) None [rateLimitDelay (retryAfter r0) 0]"
    by (simp add: makeRequest_def loop_rate_limited [OF _ a0] MAX_RETRIES_def)
  also have "\<dots> = makeRequest_loop fetch (Suc (Suc 0)) None
                      [rateLimitDelay (retryAfter r0) 0, rateLimitDelay (retryAfter r1) 1]"
    by (simp add: loop_rate_limited [OF _ a1] MAX_RETRIES_def)
  also have "\<dots> = makeRequest_loop fetch (Suc (Suc (Suc 0))) None
                      [rateLimitDelay (retryAfter r0) 0, rateLimitDelay (retryAfter r1) 1,
                       rateLimitDelay (retryAfter r2) 2]"
    by (simp add: loop_rate_limited [OF _ a2] MAX_RETRIES_def)
  also have "\<dots> = \<lparr>result = Inl MaxRetriesExceeded, attempts = 3,
            delays = [rateLimitDelay (retryAfter r0) 0, rateLimitDelay (retryAfter r1) 1,
                      rateLimitDelay (retryAfter r2) 2]\<rparr>"
    by (simp add: loop_exhausted MAX_RETRIES_def)
  finally show ?thesis .
qed

text \<open>
  C4. The transport answers 429 three times (the second time with \<^verbatim>\<open>Retry-After: 5\<close>)
  and would answer 200 to a fourth request. The call waits 1000, 5000 and 4000
  milliseconds, the third wait after the last attempt the loop allows, and then fails with
  "Request failed after maximum retries": the fourth request is never issued, and no
  successful result is returned. The \<^verbatim>\<open>catch\<close> branch of the same loop waits only when an
  attempt is left (\<^verbatim>\<open>attempt < MAX_RETRIES - 1\<close>): a transport that rejects every request
  is waited for twice, 1000 and 2000 milliseconds.
\<close>

theorem C4_third_429_waits_then_fails:
  "three429 3 = Responded \<lparr>status = 200, retryAfter = None, bodyText = ''{}'', json = Some 7,
                              body = None\<rparr>
   \<and> makeRequest three429 =
       \<lparr>result = Inl MaxRetriesExceeded, attempts = 3,
        delays = [Some 1000, Some 5000, Some 4000]\<rparr>
   \<and> message MaxRetriesExceeded = ''Request failed after maximum retries''
   \<and> makeRequest unreachable =
       \<lparr>result = Inl (FetchFailed ''fetch failed''), attempts = 3,
        delays = [Some 1000, Some 2000]\<rparr>"
  by code_simp
section \<open>The streaming request\<close>

subsection \<open>Lines and chunks\<close>

lemma split_nl_nonempty [simp]: "split_nl s \<noteq> []"
  by (induction s) (auto split: list.splits)

lemma split_nl_no_nl: "CHR 0x0A \<notin> set s \<Longrightarrow> split_nl s = [s]"
  by (induction s) auto

lemma split_nl_line: "CHR 0x0A \<notin> set l \<Longrightarrow> split_nl (l @ CHR 0x0A # t) = l # split_nl t"
  by (induction l) auto

lemma split_nl_append:
  "split_nl (a @ b) = butlast (split_nl a) @ split_nl (last (split_nl a) @ b)"
proof (induction a)
  case Nil
  show ?case by simp
next
  case (Cons c a)
  show ?case
  proof (cases "c = CHR 0x0A")
    case True
    then show ?thesis using Cons by simp
  next
    case False
    obtain l ls where s: "split_nl a = l # ls" by (cases "split_nl a") auto
    show ?thesis
    proof (cases ls)
      case Nil
      then show ?thesis using False s Cons by simp
    next
      case (Cons l' ls')
      then show ?thesis using False s Cons.IH by (simp split: list.splits)
    qed
  qed
qed


lemma processLines_append:
  "processLines P (xs @ ys) =
     (case processLines P xs of
        (ts, True) \<Rightarrow> (ts, True)
      | (ts, False) \<Rightarrow> (let (ts', d) = processLines P ys in (ts @ ts', d)))"
  by (induction xs) (auto split: LineEvent.splits prod.splits bool.splits)

lemma butlast_split_nl_append:
  "butlast (split_nl (a @ b)) = butlast (split_nl a) @ butlast (split_nl (last (split_nl a) @ b))"
  by (subst split_nl_append) (simp add: butlast_append)


lemma last_split_nl_no_nl: "CHR 0x0A \<notin> set (last (split_nl s))"
  by (induction s) (auto split: list.splits)

lemma readLoop_readText:
  "CHR 0x0A \<notin> set buffer \<Longrightarrow>
     readLoop P buffer chunks rend = readText P (buffer @ concat chunks) rend"
proof (induction chunks arbitrary: buffer)
  case Nil
  then show ?case by (simp add: readText_def split_nl_no_nl)
next
  case (Cons c cs)
  have ih: "readLoop P (last (split_nl (buffer @ c))) cs rend
              = readText P (last (split_nl (buffer @ c)) @ concat cs) rend"
    by (rule Cons.IH) (rule last_split_nl_no_nl)
  have sp: "butlast (split_nl ((buffer @ c) @ concat cs))
              = butlast (split_nl (buffer @ c))
                @ butlast (split_nl (last (split_nl (buffer @ c)) @ concat cs))"
    by (rule butlast_split_nl_append)
  show ?case
    using sp by (simp add: ih readText_def processLines_append Let_def
        split: prod.splits bool.splits)
qed

lemma split_nl_lines:
  "\<forall>l \<in> set ls. CHR 0x0A \<notin> set l \<Longrightarrow>
     split_nl (concat (map (\<lambda>l. l @ [CHR 0x0A]) ls) @ t) = ls @ split_nl t"
  by (induction ls) (simp_all add: split_nl_line)


lemma trim_empty_iff: "trim s = [] \<longleftrightarrow> (\<forall>c \<in> set s. isWhiteSpace c)"
proof
  assume "trim s = []"
  then have "\<forall>c \<in> set (dropWhile isWhiteSpace s). isWhiteSpace c"
    by (simp add: trim_def)
  then have "dropWhile isWhiteSpace s = []"
    using hd_dropWhile [of isWhiteSpace s] by (cases "dropWhile isWhiteSpace s") auto
  then show "\<forall>c \<in> set s. isWhiteSpace c"
    by simp
next
  assume a: "\<forall>c \<in> set s. isWhiteSpace c"
  then have d: "dropWhile isWhiteSpace s = []" by simp
  show "trim s = []" unfolding trim_def d by simp
qed

lemma data_line_not_blank: "startsWith l ''data: '' \<Longrightarrow> trim l \<noteq> []"
proof
  assume a: "startsWith l ''data: ''" and b: "trim l = []"
  from a obtain r where "l = CHR ''d'' # r"
    by (cases l) (auto simp: startsWith_def)
  with b show False by (simp add: trim_empty_iff isWhiteSpace_def)
qed

lemma data_line_not_comment: "startsWith l ''data: '' \<Longrightarrow> \<not> startsWith l '': ''"
  by (cases l) (auto simp: startsWith_def)

lemma processLine_fragment:
  assumes "fragmentLine P l"
  shows "processLine P l = (if fragmentToken P l = [] then Ignore else Yield (fragmentToken P l))"
proof (cases "startsWith l ''data: ''")
  case True
  then show ?thesis
    using assms data_line_not_blank [OF True] data_line_not_comment [OF True]
    by (auto simp: processLine_def fragmentLine_def fragmentToken_def split: option.splits)
next
  case False
  then show ?thesis by (simp add: processLine_def fragmentToken_def)
qed

lemma processLine_malformed:
  assumes "malformedLine P l"
  shows "processLine P l = Ignore"
proof (cases "startsWith l ''data: ''")
  case True
  moreover have "length ''data: '' = 6" by simp
  ultimately have "take 6 l = ''data: ''" by (simp only: startsWith_def)
  then have "l = ''data: '' @ drop 6 l" using append_take_drop_id [of 6 l] by simp
  then have "drop 6 l \<noteq> ''[DONE]''" using assms by (auto simp: malformedLine_def)
  then show ?thesis using True assms by (simp add: processLine_def malformedLine_def)
next
  case False
  then show ?thesis by (simp add: processLine_def)
qed

lemma processLine_sentinel: "processLine P ''data: [DONE]'' = Done"
  by (simp add: processLine_def trim_def startsWith_def isWhiteSpace_def)

lemma processLines_fragments:
  "\<forall>l \<in> set ls. fragmentLine P l \<Longrightarrow>
     processLines P (ls @ others) =
       (filter (\<lambda>t. t \<noteq> []) (map (fragmentToken P) ls) @ fst (processLines P others),
        snd (processLines P others))"
  by (induction ls) (auto simp: processLine_fragment split: prod.splits)


lemma concat_filter_nonempty: "concat (filter (\<lambda>t. t \<noteq> []) ts) = concat ts"
  by (induction ts) auto

text \<open>
  C5. Take an event stream whose lines are healthy (blank, comment, or a data line that
  parses) except for one malformed line, followed by the sentinel line, each line ended
  by a newline, and cut it into chunks in any way. The streaming request then yields
  exactly the non-empty tokens of the healthy lines in order, so their concatenation is
  the concatenation of all the tokens; the malformed line contributes nothing and raises
  nothing, and the sequence ends cleanly at the sentinel, whatever follows it and however
  the connection ends.
\<close>

theorem C5_malformed_line_skipped:
  assumes frag: "\<forall>l \<in> set (before @ after). fragmentLine P l"
      and bad: "malformedLine P bad"
      and nonl: "\<forall>l \<in> set (before @ bad # after). CHR 0x0A \<notin> set l"
      and chunks: "concat chunks =
                     concat (map (\<lambda>l. l @ [CHR 0x0A]) (before @ bad # after @ [''data: [DONE]'']))
                     @ rest"
      and resp: "backend (streamChat_body messages m options) = Responded response"
                "ok response" "body response = Some (chunks, rend)"
  shows "streamChat P backend messages m options =
           (filter (\<lambda>t. t \<noteq> []) (map (fragmentToken P) (before @ after)), Completed)
         \<and> concat (fst (streamChat P backend messages m options)) =
           concat (map (fragmentToken P) (before @ after))"
proof -
  let ?ls = "before @ bad # after @ [''data: [DONE]'']"
  have nl: "\<forall>l \<in> set ?ls. CHR 0x0A \<notin> set l" using nonl by auto
  have "split_nl (concat chunks) = ?ls @ split_nl rest"
    unfolding chunks by (rule split_nl_lines [OF nl])
  then have lines: "butlast (split_nl (concat chunks)) = ?ls @ butlast (split_nl rest)"
    by (simp add: butlast_append)
  have fb: "\<forall>l \<in> set before. fragmentLine P l" and fa: "\<forall>l \<in> set after. fragmentLine P l"
    using frag by auto
  have "processLines P (after @ ''data: [DONE]'' # butlast (split_nl rest)) =
          (filter (\<lambda>t. t \<noteq> []) (map (fragmentToken P) after), True)"
    by (simp add: processLines_fragments [OF fa] processLine_sentinel)
  then have "processLines P (bad # after @ ''data: [DONE]'' # butlast (split_nl rest)) =
          (filter (\<lambda>t. t \<noteq> []) (map (fragmentToken P) after), True)"
    by (simp add: processLine_malformed [OF bad])
  then have "processLines P (before @ bad # after @ ''data: [DONE]'' # butlast (split_nl rest)) =
          (filter (\<lambda>t. t \<noteq> []) (map (fragmentToken P) (before @ after)), True)"
    by (simp add: processLines_fragments [OF fb])
  then have "readText P (concat chunks) rend =
          (filter (\<lambda>t. t \<noteq> []) (map (fragmentToken P) (before @ after)), Completed)"
    by (simp add: readText_def lines)
  then have run: "streamChat P backend messages m options =
          (filter (\<lambda>t. t \<noteq> []) (map (fragmentToken P) (before @ after)), Completed)"
    using resp readLoop_readText [of "[]" P chunks rend] by (simp add: streamChat_def)
  show ?thesis
    unfolding run by (simp only: fst_conv concat_filter_nonempty)
qed

theorem C5_malformed_line_skipped_witness:
  "malformedLine sampleParse sampleBad
   \<and> streamChat sampleParse (streaming sampleChunks (ReadFailed ''reset'')) [] ''m'' noOptions =
       ([''Hel'', ''lo'', '' wor'', ''ld''], Completed)"
proof -
  have h1: "\<forall>l \<in> set (sampleBefore @ sampleAfter). fragmentLine sampleParse l"
    by code_simp
  have h2: "malformedLine sampleParse sampleBad"
    by code_simp
  have h3: "\<forall>l \<in> set (sampleBefore @ sampleBad # sampleAfter). CHR 0x0A \<notin> set l"
    by code_simp
  have h4: "concat sampleChunks =
              concat (map (\<lambda>l. l @ [CHR 0x0A])
                        (sampleBefore @ sampleBad # sampleAfter @ [''data: [DONE]'']))
              @ sampleRest"
  proof -
    have d: "drop 150 sampleText = drop 100 (drop 50 sampleText)" by simp
    have "concat sampleChunks = sampleText"
      by (simp only: sampleChunks_def concat.simps append_Nil2 d append_take_drop_id)
    then show ?thesis by (simp only: sampleText_def)
  qed
  have h5: "streaming sampleChunks (ReadFailed ''reset'') (streamChat_body [] ''m'' noOptions) =
              Responded \<lparr>status = 200, retryAfter = None, bodyText = [], json = None,
                         body = Some (sampleChunks, ReadFailed ''reset'')\<rparr>"
    by (simp add: streaming_def)
  have h6: "ok \<lparr>status = 200, retryAfter = None, bodyText = [], json = None :: unit option,
                 body = Some (sampleChunks, ReadFailed ''reset'')\<rparr>"
    by (simp add: ok_def)
  have e: "filter (\<lambda>t. t \<noteq> []) (map (fragmentToken sampleParse) (sampleBefore @ sampleAfter)) =
             [''Hel'', ''lo'', '' wor'', ''ld'']"
    by code_simp
  from C5_malformed_line_skipped
         [where backend = "streaming sampleChunks (ReadFailed ''reset'')" and messages = "[]"
            and m = "''m''" and options = noOptions, OF h1 h2 h3 h4 h5 h6]
       h2 e
  show ?thesis by simp
qed

lemma processLines_nonempty: "\<forall>t \<in> set (fst (processLines P ls)). t \<noteq> []"
  by (induction ls) (auto simp: processLine_def Let_def split: LineEvent.splits prod.splits option.splits if_splits)

lemma readLoop_nonempty: "\<forall>t \<in> set (fst (readLoop P buffer chunks rend)). t \<noteq> []"
proof (induction chunks arbitrary: buffer)
  case Nil
  show ?case by simp
next
  case (Cons c cs)
  show ?case
    using processLines_nonempty [of P "butlast (split_nl (buffer @ c))"]
          Cons [of "last (split_nl (buffer @ c))"]
    by (auto simp: Let_def split: prod.splits)
qed

lemma streamChat_nonempty:
  "\<forall>t \<in> set (fst (streamChat P backend messages m options)). t \<noteq> []"
  using readLoop_nonempty [of P "[]"]
  by (auto simp: streamChat_def split: FetchResult.splits option.splits prod.splits)

subsection \<open>Request parameters\<close>

lemma streamChat_body_profile:
  "temperature profile \<noteq> 0 \<Longrightarrow> maxTokens profile \<noteq> 0 \<Longrightarrow>
     streamChat_body messages m (profileOptions profile) =
       \<lparr>rb_model = m, rb_messages = messages, rb_temperature = temperature profile,
        rb_max_tokens = maxTokens profile, rb_stream = True\<rparr>"
  by (simp add: streamChat_body_def profileOptions_def orElse_def)

text \<open>
  C7. The claim: every request carries exactly the profile's temperature, also when it
  is 0. The body is built with \<^verbatim>\<open>options.temperature || 0.7\<close>, and 0 is falsy: for a
  profile with temperature 0 (which the profile editor accepts, its check being
  \<^verbatim>\<open>input >= 0 && input <= 2\<close>) the request carries 0.7.
\<close>

theorem C7_temperature_zero_replaced:
  "streamChat_body [userMessage ''hi''] ''m''
     (profileOptions \<lparr>models = [''m''], temperature = 0, maxTokens = 1000\<rparr>) =
     \<lparr>rb_model = ''m'', rb_messages = [userMessage ''hi''], rb_temperature = 7 / 10,
      rb_max_tokens = 1000, rb_stream = True\<rparr>"
  by (simp add: streamChat_body_def profileOptions_def orElse_def)

section \<open>The streaming request on the values the parser returns\<close>

lemma processLinesRaw_truthy: "\<forall>t \<in> set (fst (processLinesRaw P ls)). truthy t"
  by (induction ls) (auto simp: processLineRaw_def Let_def split: RawEvent.splits prod.splits option.splits if_splits)

lemma readLoopRaw_truthy: "\<forall>t \<in> set (fst (readLoopRaw P buffer chunks rend)). truthy t"
proof (induction chunks arbitrary: buffer)
  case Nil
  show ?case by simp
next
  case (Cons c cs)
  show ?case
    using processLinesRaw_truthy [of P "butlast (split_nl (buffer @ c))"]
          Cons [of "last (split_nl (buffer @ c))"]
    by (auto simp: Let_def split: prod.splits)
qed

lemma streamChatRaw_truthy:
  "\<forall>t \<in> set (fst (streamChatRaw P backend messages m options)). truthy t"
  using readLoopRaw_truthy [of P "[]"]
  by (auto simp: streamChatRaw_def split: FetchResult.splits option.splits prod.splits)

lemma getProp_delta_choiceJson: "getProp (choiceJson c) ''delta'' = map_option deltaJson (delta c)"
  by (cases "delta c"; cases "finish_reason c") (simp_all add: choiceJson_def optProp_def)

lemma content_deltaJson:
  "getProp (deltaJson d) ''content'' = map_option JString (delta_content d)"
  by (cases "delta_role d"; cases "delta_content d") (simp_all add: deltaJson_def optProp_def)

lemma truthy_json [simp]: "truthy (choiceJson c)" "truthy (deltaJson d)"
  by (simp_all add: choiceJson_def deltaJson_def)

lemma rawDelta_chunkJson:
  "rawDelta (chunkJson chunk) =
     (case choices chunk of
        None \<Rightarrow> None
      | Some cs \<Rightarrow> (case cs of [] \<Rightarrow> None
                     | c # _ \<Rightarrow> (case delta c of None \<Rightarrow> None | Some d \<Rightarrow> Some (deltaJson d))))"
proof (cases "choices chunk")
  case None
  then show ?thesis by (simp add: rawDelta_def chunkJson_def optProp_def)
next
  case (Some cs)
  show ?thesis
  proof (cases cs)
    case Nil
    then show ?thesis using Some by (simp add: rawDelta_def chunkJson_def optProp_def)
  next
    case (Cons c cs')
    have "rawDelta (chunkJson chunk) =
            (case getProp (choiceJson c) ''delta'' of None \<Rightarrow> None
             | Some d \<Rightarrow> if truthy d then Some d else None)"
      using Some Cons by (simp add: rawDelta_def chunkJson_def optProp_def)
    then show ?thesis
      using Some Cons by (cases "delta c") (simp_all add: getProp_delta_choiceJson)
  qed
qed

lemma rawContent_chunkJson:
  "(case rawDelta (chunkJson chunk) of None \<Rightarrow> None | Some d \<Rightarrow> getProp d ''content'')
     = map_option JString (chunkContent chunk)"
  by (simp add: rawDelta_chunkJson chunkContent_def content_deltaJson
      split: option.splits list.splits)

lemma chunkJson_not_null: "chunkJson chunk \<noteq> JNull"
  by (simp add: chunkJson_def)

lemma processLineRaw_typed:
  "processLineRaw (\<lambda>data. map_option chunkJson (Q data)) l = rawEvent (processLine Q l)"
proof -
  have c: "(case rawDelta (chunkJson chunk) of None \<Rightarrow> RawIgnore
            | Some d \<Rightarrow> (case getProp d ''content'' of None \<Rightarrow> RawIgnore
                          | Some c \<Rightarrow> if truthy c then RawYield c else RawIgnore))
           = rawEvent (case chunkContent chunk of None \<Rightarrow> Ignore
                       | Some c \<Rightarrow> if c \<noteq> [] then Yield c else Ignore)" for chunk
    using rawContent_chunkJson [of chunk]
    by (cases "rawDelta (chunkJson chunk)"; cases "chunkContent chunk")
       (auto simp: rawEvent_def)
  show ?thesis
    by (cases "Q (drop 6 l)")
       (simp_all add: processLineRaw_def processLine_def Let_def chunkJson_not_null c,
        simp_all add: rawEvent_def)
qed

lemma processLinesRaw_typed:
  "processLinesRaw (\<lambda>data. map_option chunkJson (Q data)) ls =
     (map JString (fst (processLines Q ls)), snd (processLines Q ls))"
  by (induction ls)
     (auto simp: processLineRaw_typed rawEvent_def split: LineEvent.splits prod.splits)

lemma readLoopRaw_typed:
  "readLoopRaw (\<lambda>data. map_option chunkJson (Q data)) buffer chunks rend =
     (map JString (fst (readLoop Q buffer chunks rend)), snd (readLoop Q buffer chunks rend))"
proof (induction chunks arbitrary: buffer)
  case Nil
  show ?case by simp
next
  case (Cons c cs)
  show ?case
    by (simp add: processLinesRaw_typed Cons Let_def split: prod.splits)
qed

lemma streamChatRaw_typed:
  "streamChatRaw (\<lambda>data. map_option chunkJson (Q data)) backend messages m options =
     (map JString (fst (streamChat Q backend messages m options)),
      snd (streamChat Q backend messages m options))"
  by (simp add: streamChatRaw_def streamChat_def readLoopRaw_typed
      split: FetchResult.splits option.splits prod.splits)

lemma processLineRaw_yield_iff:
  "processLineRaw P l = RawYield v \<longleftrightarrow>
     startsWith l ''data: '' \<and> drop 6 l \<noteq> ''[DONE]'' \<and>
     (\<exists>chunk d. P (drop 6 l) = Some chunk \<and> rawDelta chunk = Some d
                \<and> getProp d ''content'' = Some v \<and> truthy v)"
proof (cases "startsWith l ''data: ''")
  case True
  have n: "rawDelta JNull = None" by (simp add: rawDelta_def)
  show ?thesis
    using True data_line_not_blank [OF True] data_line_not_comment [OF True] n
    by (auto simp: processLineRaw_def Let_def split: option.splits if_splits)
next
  case False
  then show ?thesis by (simp add: processLineRaw_def)
qed

lemma processLineRaw_done_iff:
  "processLineRaw P l = RawDone \<longleftrightarrow> startsWith l ''data: '' \<and> drop 6 l = ''[DONE]''"
proof (cases "startsWith l ''data: ''")
  case True
  show ?thesis
    using True data_line_not_blank [OF True] data_line_not_comment [OF True]
    by (auto simp: processLineRaw_def Let_def split: option.splits if_splits)
next
  case False
  then show ?thesis by (simp add: processLineRaw_def)
qed

text \<open>
  C9, as the claim states it, fails: the cast to \<open>StreamChunk\<close> checks nothing, and a
  content that is not a string is yielded when it is truthy. From a stream whose
  fragments carry the content "Hel", the number 5 and the empty array, the generator
  yields the string "Hel", the number 5 and the empty array: two of the three tokens are
  not strings.
\<close>

theorem C9_number_is_yielded:
  "streamChatRaw looseParse (streaming looseChunks EndOfStream) [] ''m'' noOptions =
     ([JString ''Hel'', JNumber (Finite 5), JArray []], Completed)"
  by code_simp

text \<open>
  C9, amended. Every token the streaming request yields is a truthy value, the content
  of the first choice's delta as the parser returned it, so never the empty string. A data
  line yields a token exactly when its payload parses to a value with a truthy
  \<^verbatim>\<open>choices\<close>, \<^verbatim>\<open>choices[0]\<close> and \<^verbatim>\<open>choices[0].delta\<close> and the content of that delta is
  present and truthy: a fragment whose content is absent, \<^verbatim>\<open>null\<close>, \<^verbatim>\<open>false\<close>, 0 or the
  empty string is consumed without yielding anything, and only the sentinel ends the
  sequence. When every payload that parses is of the declared type \<open>StreamChunk\<close>, the
  tokens are strings, none of them empty.
\<close>

theorem C9_tokens_truthy:
  "(\<forall>t \<in> set (fst (streamChatRaw P backend messages m options)). truthy t \<and> t \<noteq> JString [])
   \<and> (processLineRaw P l = RawYield v \<longleftrightarrow>
        startsWith l ''data: '' \<and> drop 6 l \<noteq> ''[DONE]'' \<and>
        (\<exists>chunk d. P (drop 6 l) = Some chunk \<and> rawDelta chunk = Some d
                   \<and> getProp d ''content'' = Some v \<and> truthy v))
   \<and> (processLineRaw P l = RawDone \<longleftrightarrow> startsWith l ''data: '' \<and> drop 6 l = ''[DONE]'')
   \<and> \<not> truthy JNull \<and> \<not> truthy (JBool False) \<and> \<not> truthy (JNumber (Finite 0))
   \<and> \<not> truthy (JString [])
   \<and> streamChatRaw (\<lambda>data. map_option chunkJson (Q data)) backend messages m options =
       (map JString (fst (streamChat Q backend messages m options)),
        snd (streamChat Q backend messages m options))
   \<and> (\<forall>t \<in> set (fst (streamChat Q backend messages m options)). t \<noteq> [])"
proof -
  have c1: "\<forall>t \<in> set (fst (streamChatRaw P backend messages m options)).
              truthy t \<and> t \<noteq> JString []"
    using streamChatRaw_truthy [of P backend messages m options] by auto
  show ?thesis
    using c1 processLineRaw_yield_iff [of P l v] processLineRaw_done_iff [of P l]
          streamChatRaw_typed [of Q backend messages m options]
          streamChat_nonempty [of Q backend messages m options]
    by simp
qed

theorem C9_tokens_truthy_witness:
  "JNumber (Finite 5) \<in> set (fst (streamChatRaw looseParse (streaming looseChunks EndOfStream) [] ''m'' noOptions))
   \<and> truthy (JNumber (Finite 5))
   \<and> processLineRaw looseParse (''data: '' @ absentPayload) = RawIgnore
   \<and> processLineRaw looseParse (''data: '' @ nullContentPayload) = RawIgnore
   \<and> processLineRaw looseParse (tokenLine []) = RawIgnore
   \<and> fst (streamChatRaw (\<lambda>data. map_option chunkJson (sampleParse data))
            (streaming sampleChunks EndOfStream) [] ''m'' noOptions) =
       [JString ''Hel'', JString ''lo'', JString '' wor'', JString ''ld'']"
proof -
  have m: "JNumber (Finite 5) \<in> set (fst (streamChatRaw looseParse (streaming looseChunks EndOfStream)
                                   [] ''m'' noOptions))"
    by code_simp
  have e: "processLineRaw looseParse (''data: '' @ absentPayload) = RawIgnore
           \<and> processLineRaw looseParse (''data: '' @ nullContentPayload) = RawIgnore
           \<and> processLineRaw looseParse (tokenLine []) = RawIgnore"
    by code_simp
  have s: "fst (streamChat sampleParse (streaming sampleChunks EndOfStream) [] ''m'' noOptions) =
             [''Hel'', ''lo'', '' wor'', ''ld'']"
    by code_simp
  note t = C9_tokens_truthy [of looseParse "streaming looseChunks EndOfStream" "[]" "''m''" noOptions
             "[]" JNull sampleParse]
  from t [THEN conjunct1, THEN bspec, OF m] have a: "truthy (JNumber (Finite 5))" by simp
  have b: "fst (streamChatRaw (\<lambda>data. map_option chunkJson (sampleParse data))
            (streaming sampleChunks EndOfStream) [] ''m'' noOptions) =
       [JString ''Hel'', JString ''lo'', JString '' wor'', JString ''ld'']"
    by (simp add: streamChatRaw_typed s)
  show ?thesis using m a e b by simp
qed

section \<open>The model directory\<close>

lemma getModels_never_fails: "\<exists>ms. getModels fetch = Inr ms"
  by (simp add: getModels_def split: sum.splits)

lemma fetchModels_cached:
  "\<not> force \<Longrightarrow> cacheFresh mm now \<Longrightarrow>
     fetchModels mm force now now' fetch = \<lparr>outcome = Inr (mm_models mm), manager = mm, fetches = 0\<rparr>"
  by (simp add: fetchModels_def)

lemma fetchModels_refetch:
  "force \<or> \<not> cacheFresh mm now \<Longrightarrow>
     outcome (fetchModels mm force now now' fetch) = getModels fetch
     \<and> 0 < fetches (fetchModels mm force now now' fetch)"
  using makeRequest_attempts_pos [of fetch]
  by (auto simp: fetchModels_def split: sum.splits)

text \<open>
  C8. The cache test and the refetch are as the claim says (\<open>fetchModels_cached\<close>,
  \<open>fetchModels_refetch\<close>). A failed fetch does not propagate: \<open>getModels\<close> catches
  every error of \<open>makeRequest\<close> and returns the empty list, so the \<^verbatim>\<open>catch\<close> block of
  \<open>fetchModels\<close>, which would rethrow, is never entered. With an unreachable backend and
  a stale cache of one model, \<open>fetchModels\<close> returns the empty list as a success after
  three requests, stores it with a new time stamp, and serves it from the cache
  afterwards.
\<close>

theorem C8_fetch_failure_gives_empty_list:
  "fetchModels cachedManager False 400000 407000 unreachable =
     \<lparr>outcome = Inr [], manager = \<lparr>mm_models = [], mm_lastFetch = Some 407000\<rparr>, fetches = 3\<rparr>
   \<and> fetchModels \<lparr>mm_models = [], mm_lastFetch = Some 407000\<rparr> False 500000 500000 unreachable =
     \<lparr>outcome = Inr [], manager = \<lparr>mm_models = [], mm_lastFetch = Some 407000\<rparr>, fetches = 0\<rparr>"
  by code_simp

section \<open>The parallel chat engine\<close>

subsection \<open>Steps of the turn\<close>

lemma length_tasks_step [simp]: "length (tasks (step i st)) = length (tasks st)"
  by (simp add: step_def Let_def split: option.splits list.splits StreamEnd.splits)

lemma length_tasks_run [simp]: "length (tasks (run s st)) = length (tasks st)"
  by (induction s arbitrary: st) (simp_all add: run_def)

lemma run_Nil [simp]: "run [] st = st"
  by (simp add: run_def)

lemma run_Cons [simp]: "run (i # s) st = run s (step i st)"
  by (simp add: run_def)

lemma run_append: "run (s @ s') st = run s' (run s st)"
  by (simp add: run_def)

lemma step_other:
  "j \<noteq> i \<Longrightarrow> tasks (step i st) ! j = tasks st ! j"
  by (simp add: step_def Let_def split: option.splits list.splits StreamEnd.splits)

lemma step_keeps_settled:
  "settled (tasks st ! j) \<noteq> None \<Longrightarrow> tasks (step i st) ! j = tasks st ! j"
  by (cases "j = i") (auto simp: step_def Let_def split: option.splits list.splits StreamEnd.splits)

lemma run_keeps_settled:
  "settled (tasks st ! j) \<noteq> None \<Longrightarrow> tasks (run s st) ! j = tasks st ! j"
  by (induction s arbitrary: st) (simp_all add: step_keeps_settled)

lemma finish_step:
  "map finish (tasks (step i st)) = map finish (tasks st)"
proof (cases "i < length (tasks st)")
  case False
  then show ?thesis by (simp add: step_def)
next
  case True
  have "finish (tasks (step i st) ! i) = finish (tasks st ! i)"
    using True
    by (auto simp: step_def Let_def finish_def split: option.splits list.splits StreamEnd.splits)
  then show ?thesis
    by (intro nth_equalityI) (auto simp: step_other, metis step_other)
qed

lemma finish_run: "map finish (tasks (run s st)) = map finish (tasks st)"
  by (induction s arbitrary: st) (simp_all add: finish_step)

lemma finish_settled: "settled t \<noteq> None \<Longrightarrow> finish t = t"
  by (auto simp: finish_def)


subsection \<open>Every task resolves\<close>

lemma step_settles_or_shortens:
  assumes "i < length (tasks st)" and "settled (tasks st ! i) = None"
  shows "(pending (tasks st ! i) = [] \<and> settled (tasks (step i st) ! i) \<noteq> None)
       \<or> (settled (tasks (step i st) ! i) = None
          \<and> Suc (length (pending (tasks (step i st) ! i))) = length (pending (tasks st ! i)))"
  using assms
  by (auto simp: step_def Let_def split: option.splits list.splits StreamEnd.splits)

lemma run_replicate_settles:
  "i < length (tasks st) \<Longrightarrow> length (pending (tasks st ! i)) < k \<Longrightarrow>
     settled (tasks (run (replicate k i) st) ! i) \<noteq> None"
proof (induction k arbitrary: st)
  case 0
  then show ?case by simp
next
  case (Suc k)
  show ?case
  proof (cases "settled (tasks st ! i)")
    case (Some out)
    then show ?thesis using run_keeps_settled [of st i "replicate (Suc k) i"] by simp
  next
    case None
    from step_settles_or_shortens [OF Suc.prems(1) None]
    show ?thesis
    proof
      assume "pending (tasks st ! i) = [] \<and> settled (tasks (step i st) ! i) \<noteq> None"
      then show ?thesis
        using run_keeps_settled [of "step i st" i "replicate k i"] by simp
    next
      assume a: "settled (tasks (step i st) ! i) = None
          \<and> Suc (length (pending (tasks (step i st) ! i))) = length (pending (tasks st ! i))"
      have "settled (tasks (run (replicate k i) (step i st)) ! i) \<noteq> None"
        using Suc.prems a by (intro Suc.IH) auto
      then show ?thesis by simp
    qed
  qed
qed

lemma length_tasks_finishTask [simp]: "length (tasks (finishTask i st)) = length (tasks st)"
  unfolding finishTask_def by (rule length_tasks_run)

lemma finishTask_settles:
  "i < length (tasks st) \<Longrightarrow> settled (tasks (finishTask i st) ! i) \<noteq> None"
  unfolding finishTask_def by (rule run_replicate_settles) simp_all

lemma finishTask_keeps_settled:
  assumes "settled (tasks st ! j) \<noteq> None"
  shows "settled (tasks (finishTask i st) ! j) \<noteq> None"
proof -
  have "tasks (finishTask i st) ! j = tasks st ! j"
    unfolding finishTask_def by (rule run_keeps_settled) (rule assms)
  then show ?thesis using assms by simp
qed

lemma fold_finishTask_settles:
  "k \<le> length (tasks st) \<Longrightarrow>
     length (tasks (fold finishTask [0..<k] st)) = length (tasks st)
     \<and> (\<forall>j < k. settled (tasks (fold finishTask [0..<k] st) ! j) \<noteq> None)"
proof (induction k)
  case 0
  show ?case by simp
next
  case (Suc k)
  then have ih: "length (tasks (fold finishTask [0..<k] st)) = length (tasks st)"
      "\<forall>j < k. settled (tasks (fold finishTask [0..<k] st) ! j) \<noteq> None"
    by simp_all
  have "k < length (tasks (fold finishTask [0..<k] st))" using Suc.prems ih by simp
  then show ?case
    using ih finishTask_settles [of k "fold finishTask [0..<k] st"]
          finishTask_keeps_settled [of "fold finishTask [0..<k] st" _ k]
    by (auto simp: less_Suc_eq)
qed

lemma length_tasks_drain [simp]: "length (tasks (drain st)) = length (tasks st)"
  using fold_finishTask_settles [of "length (tasks st)" st] by (simp add: drain_def)

lemma drain_settles: "t \<in> set (tasks (drain st)) \<Longrightarrow> settled t \<noteq> None"
  using fold_finishTask_settles [of "length (tasks st)" st]
  by (auto simp: drain_def in_set_conv_nth)

lemma finish_finishTask: "map finish (tasks (finishTask i st)) = map finish (tasks st)"
  unfolding finishTask_def by (rule finish_run)

lemma finish_fold_finishTask:
  "map finish (tasks (fold finishTask is st)) = map finish (tasks st)"
  by (induction "is" arbitrary: st) (simp_all add: finish_finishTask)

lemma tasks_drain: "tasks (drain st) = map finish (tasks st)"
proof -
  have "map finish (tasks (drain st)) = map finish (tasks st)"
    by (simp add: drain_def finish_fold_finishTask)
  moreover have "map finish (tasks (drain st)) = tasks (drain st)"
    by (intro map_idI finish_settled drain_settles)
  ultimately show ?thesis by simp
qed

lemma tasks_sendMessage:
  "tasks (sendMessage P backend profile ms conv input s) =
     map finish (tasks (startTurn P backend profile ms conv input))"
  by (simp add: sendMessage_def tasks_drain finish_run)


subsection \<open>The conversation during the turn\<close>

lemma completedMessages_update:
  "i < length ts \<Longrightarrow> \<not> completed (ts ! i) \<Longrightarrow>
     mset (completedMessages (ts[i := t'])) =
       mset (completedMessages ts)
       + (if completed t' then {#assistantMessage (task_model t') (fullResponse t')#} else {#})"
proof (induction ts arbitrary: i)
  case Nil
  then show ?case by simp
next
  case (Cons x xs)
  show ?case
  proof (cases i)
    case 0
    then show ?thesis using Cons.prems by (simp add: completedMessages_def)
  next
    case (Suc k)
    then have "mset (completedMessages (xs[k := t'])) =
       mset (completedMessages xs)
       + (if completed t' then {#assistantMessage (task_model t') (fullResponse t')#} else {#})"
      using Cons.prems by (intro Cons.IH) simp_all
    then show ?thesis using Suc by (simp add: completedMessages_def)
  qed
qed

lemma step_conversation:
  "\<exists>pushed. conversation (step i st) = conversation st @ pushed
     \<and> mset (completedMessages (tasks (step i st))) =
         mset (completedMessages (tasks st)) + mset pushed"
proof (cases "i < length (tasks st) \<and> settled (tasks st ! i) = None")
  case False
  then have "step i st = st" by (auto simp: step_def Let_def)
  then show ?thesis by simp
next
  case True
  then have nc: "\<not> completed (tasks st ! i)" by (simp add: completed_def)
  show ?thesis
  proof (cases "pending (tasks st ! i)")
    case (Cons c rest)
    then show ?thesis
      using True completedMessages_update [OF _ nc]
      by (simp add: step_def Let_def completed_def)
  next
    case Nil
    show ?thesis
    proof (cases "ending (tasks st ! i)")
      case Completed
      then show ?thesis
        using True Nil completedMessages_update [OF _ nc]
        by (simp add: step_def Let_def completed_def)
    next
      case (Threw e)
      then show ?thesis
        using True Nil completedMessages_update [OF _ nc]
        by (simp add: step_def Let_def completed_def)
    qed
  qed
qed

lemma run_conversation:
  "\<exists>pushed. conversation (run s st) = conversation st @ pushed
     \<and> mset (completedMessages (tasks (run s st))) =
         mset (completedMessages (tasks st)) + mset pushed"
proof (induction s arbitrary: st)
  case Nil
  show ?case by simp
next
  case (Cons i s)
  obtain p1 where p1: "conversation (step i st) = conversation st @ p1"
      "mset (completedMessages (tasks (step i st))) = mset (completedMessages (tasks st)) + mset p1"
    using step_conversation by blast
  obtain p2 where p2: "conversation (run s (step i st)) = conversation (step i st) @ p2"
      "mset (completedMessages (tasks (run s (step i st)))) =
         mset (completedMessages (tasks (step i st))) + mset p2"
    using Cons.IH by blast
  show ?case
    by (rule exI [of _ "p1 @ p2"]) (simp add: p1 p2)
qed

lemma fold_finishTask_conversation:
  "\<exists>pushed. conversation (fold finishTask is st) = conversation st @ pushed
     \<and> mset (completedMessages (tasks (fold finishTask is st))) =
         mset (completedMessages (tasks st)) + mset pushed"
proof (induction "is" arbitrary: st)
  case Nil
  show ?case by simp
next
  case (Cons i "is")
  obtain p1 where p1: "conversation (finishTask i st) = conversation st @ p1"
      "mset (completedMessages (tasks (finishTask i st))) =
         mset (completedMessages (tasks st)) + mset p1"
    unfolding finishTask_def using run_conversation by blast
  obtain p2 where p2:
      "conversation (fold finishTask is (finishTask i st)) = conversation (finishTask i st) @ p2"
      "mset (completedMessages (tasks (fold finishTask is (finishTask i st)))) =
         mset (completedMessages (tasks (finishTask i st))) + mset p2"
    using Cons.IH by blast
  show ?case
    by (rule exI [of _ "p1 @ p2"]) (simp add: p1 p2)
qed

lemma completedMessages_start:
  "completedMessages (tasks (startTurn P backend profile ms conv input)) = []"
  by (simp add: completedMessages_def startTurn_def startTask_def completed_def filter_empty_conv
      split: prod.splits)

text \<open>The conversation at the end of the turn: what it was, the user message, and the
  messages of the tasks that completed, in some order.\<close>

lemma sendMessage_conversation:
  "\<exists>pushed. conversation (sendMessage P backend profile ms conv input s) =
       conv @ userMessage input # pushed
     \<and> mset pushed =
         mset (completedMessages (map finish (tasks (startTurn P backend profile ms conv input))))"
proof -
  let ?st0 = "startTurn P backend profile ms conv input"
  obtain p1 where p1: "conversation (run s ?st0) = conversation ?st0 @ p1"
      "mset (completedMessages (tasks (run s ?st0))) =
         mset (completedMessages (tasks ?st0)) + mset p1"
    using run_conversation by blast
  obtain p2 where p2: "conversation (drain (run s ?st0)) = conversation (run s ?st0) @ p2"
      "mset (completedMessages (tasks (drain (run s ?st0)))) =
         mset (completedMessages (tasks (run s ?st0))) + mset p2"
    unfolding drain_def using fold_finishTask_conversation by blast
  have c0: "conversation ?st0 = conv @ [userMessage input]" by (simp add: startTurn_def)
  have "mset (p1 @ p2) = mset (completedMessages (tasks (drain (run s ?st0))))"
    using p1 p2 by (simp add: completedMessages_start)
  also have "\<dots> = mset (completedMessages (map finish (tasks ?st0)))"
    by (simp add: tasks_drain finish_run)
  finally have "mset (p1 @ p2) = mset (completedMessages (map finish (tasks ?st0)))" .
  moreover have "conversation (sendMessage P backend profile ms conv input s) =
                   conv @ userMessage input # (p1 @ p2)"
    by (simp add: sendMessage_def p1 p2 c0)
  ultimately show ?thesis by blast
qed


subsection \<open>The accumulators\<close>

lemma task_model_step [simp]: "map task_model (tasks (step i st)) = map task_model (tasks st)"
proof (rule nth_equalityI)
  show "length (map task_model (tasks (step i st))) = length (map task_model (tasks st))"
    by simp
next
  fix j assume "j < length (map task_model (tasks (step i st)))"
  then have j: "j < length (tasks st)" by simp
  have "task_model (tasks (step i st) ! j) = task_model (tasks st ! j)"
  proof (cases "j = i")
    case True
    then show ?thesis using j
      by (auto simp: step_def Let_def split: option.splits list.splits StreamEnd.splits)
  next
    case False
    then show ?thesis by (simp add: step_other)
  qed
  then show "map task_model (tasks (step i st)) ! j = map task_model (tasks st) ! j"
    using j by simp
qed








lemma task_model_startTurn:
  "map task_model (tasks (startTurn P backend profile ms conv input)) = ms"
  by (simp add: startTurn_def startTask_def comp_def split: prod.splits) (induction ms, auto split: prod.splits)


subsection \<open>The join\<close>


lemma Promise_all_sendMessage:
  "Promise_all (sendMessage P backend profile ms conv input s) =
     Some (map (\<lambda>t. the (settled (finish t))) (tasks (startTurn P backend profile ms conv input)))"
proof -
  have "\<forall>t \<in> set (tasks (sendMessage P backend profile ms conv input s)). settled t \<noteq> None"
    unfolding sendMessage_def using drain_settles by blast
  then show ?thesis
    by (simp add: Promise_all_def tasks_sendMessage comp_def)
qed


subsection \<open>A turn over two models, one of which fails\<close>


lemma mset_single_list: "mset xs = {#x#} \<Longrightarrow> xs = [x]"
  by (cases xs) auto





subsection \<open>The order of completion\<close>

lemma distinct_filter_le_1:
  "distinct (map f xs) \<Longrightarrow> length (filter (\<lambda>x. P x \<and> f x = m) xs) \<le> 1"
proof (induction xs)
  case Nil
  show ?case by simp
next
  case (Cons x xs)
  show ?case
  proof (cases "f x = m")
    case True
    have "f x \<notin> f ` set xs" using Cons.prems by simp
    then have "\<forall>y \<in> set xs. f y \<noteq> m" using True by blast
    then have "filter (\<lambda>x. P x \<and> f x = m) xs = []"
      by (simp add: filter_empty_conv)
    then show ?thesis by simp
  next
    case False
    then show ?thesis using Cons by simp
  qed
qed

lemma mset_eq_short:
  assumes "mset xs = mset ys" and "length xs \<le> 1"
  shows "xs = ys"
proof (cases xs)
  case Nil
  then show ?thesis using assms(1) by simp
next
  case (Cons x xs')
  then have x: "xs = [x]" using assms(2) by simp
  have "mset ys = mset xs" by (rule assms(1) [symmetric])
  then have "mset ys = {#x#}" unfolding x by simp
  then have "ys = [x]" by (rule mset_single_list)
  then show ?thesis using x by simp
qed

lemma view_completedMessages:
  "conversationForModel (completedMessages ts) m =
     map (\<lambda>t. assistantMessage (task_model t) (fullResponse t))
       (filter (\<lambda>t. completed t \<and> task_model t = m) ts)"
  by (induction ts) (auto simp: conversationForModel_def completedMessages_def assistantMessage_def)

lemma task_model_finish [simp]: "task_model (finish t) = task_model t"
  by (simp add: finish_def split: option.splits)

text \<open>
  What does not depend on the order of completion: for a turn over distinct models and
  any two orders in which the streams deliver and complete, the final conversations begin
  alike and hold the same messages up to their order, so every per-model view of them is
  the same, and so are the values of the join.
\<close>

lemma completion_order_permutes:
  assumes d: "distinct activeModels"
  shows "mset (conversation (sendMessage P backend profile activeModels conv input s1)) =
           mset (conversation (sendMessage P backend profile activeModels conv input s2))
       \<and> take (Suc (length conv)) (conversation (sendMessage P backend profile activeModels conv input s1))
           = conv @ [userMessage input]
       \<and> take (Suc (length conv)) (conversation (sendMessage P backend profile activeModels conv input s2))
           = conv @ [userMessage input]
       \<and> (\<forall>m. conversationForModel
                 (conversation (sendMessage P backend profile activeModels conv input s1)) m =
               conversationForModel
                 (conversation (sendMessage P backend profile activeModels conv input s2)) m)
       \<and> Promise_all (sendMessage P backend profile activeModels conv input s1) =
           Promise_all (sendMessage P backend profile activeModels conv input s2)"
proof -
  let ?F = "map finish (tasks (startTurn P backend profile activeModels conv input))"
  obtain p1 where p1:
      "conversation (sendMessage P backend profile activeModels conv input s1) =
         conv @ userMessage input # p1"
      "mset p1 = mset (completedMessages ?F)"
    using sendMessage_conversation by blast
  obtain p2 where p2:
      "conversation (sendMessage P backend profile activeModels conv input s2) =
         conv @ userMessage input # p2"
      "mset p2 = mset (completedMessages ?F)"
    using sendMessage_conversation by blast
  have dF: "distinct (map task_model ?F)"
    using d by (simp add: o_def task_model_startTurn)
  have views: "conversationForModel p1 m = conversationForModel p2 m" for m
  proof (rule mset_eq_short)
    show "mset (conversationForModel p1 m) = mset (conversationForModel p2 m)"
      by (simp add: conversationForModel_def p1(2) p2(2))
    have "mset (conversationForModel p1 m) = mset (conversationForModel (completedMessages ?F) m)"
      by (simp add: conversationForModel_def p1(2))
    then have "length (conversationForModel p1 m)
                 = length (conversationForModel (completedMessages ?F) m)"
      by (rule mset_eq_length)
    also have "\<dots> \<le> 1"
      unfolding view_completedMessages using distinct_filter_le_1 [OF dF] by simp
    finally show "length (conversationForModel p1 m) \<le> 1" .
  qed
  have split: "conversationForModel (conv @ userMessage input # p) m =
        conversationForModel conv m @ userMessage input # conversationForModel p m" for p m
    by (simp add: conversationForModel_def userMessage_def)
  have c1: "mset (conv @ userMessage input # p1) = mset (conv @ userMessage input # p2)"
    by (simp add: p1(2) p2(2))
  have c2: "take (Suc (length conv)) (conv @ userMessage input # p) = conv @ [userMessage input]"
    for p by simp
  have c3: "\<forall>m. conversationForModel (conv @ userMessage input # p1) m =
        conversationForModel (conv @ userMessage input # p2) m"
    by (simp add: split views)
  have c4: "Promise_all (sendMessage P backend profile activeModels conv input s1) =
           Promise_all (sendMessage P backend profile activeModels conv input s2)"
    by (simp only: Promise_all_sendMessage)
  show ?thesis
    unfolding p1(1) p2(1)
    using c1 c2 [of p1] c2 [of p2] c3 c4 by (simp only: simp_thms)
qed

text \<open>
  C6. In parallel-chat.ts each task appends its message when its own stream ends, so the
  messages of a turn stand in the conversation in the order of completion. The same turn
  over the models "a" and "b", with the same tokens: when "a" completes first the
  conversation ends user, "a", "b"; when "b" completes first it ends user, "b", "a"; the
  two final conversations differ. The sequential engine of chat.ts ends the same turn
  with user, "a", "b", the order of the models.
\<close>

theorem C6_completion_order_in_conversation:
  "conversation (sendMessage sampleParse twoModels sampleProfile [''a'', ''b''] [] ''hi'' [0, 0, 0, 1, 1]) =
     [\<lparr>role = User, content = ''hi'', model = None, name = None\<rparr>,
      \<lparr>role = Assistant, content = ''Hello'', model = Some ''a'', name = None\<rparr>,
      \<lparr>role = Assistant, content = ''Hi'', model = Some ''b'', name = None\<rparr>]
   \<and> conversation (sendMessage sampleParse twoModels sampleProfile [''a'', ''b''] [] ''hi'' [1, 1, 0, 0, 0]) =
     [\<lparr>role = User, content = ''hi'', model = None, name = None\<rparr>,
      \<lparr>role = Assistant, content = ''Hi'', model = Some ''b'', name = None\<rparr>,
      \<lparr>role = Assistant, content = ''Hello'', model = Some ''a'', name = None\<rparr>]
   \<and> conversation (sendMessage sampleParse twoModels sampleProfile [''a'', ''b''] [] ''hi'' [0, 0, 0, 1, 1])
     \<noteq> conversation (sendMessage sampleParse twoModels sampleProfile [''a'', ''b''] [] ''hi'' [1, 1, 0, 0, 0])
   \<and> chatSendMessage sampleParse twoModels sampleProfile [''a'', ''b''] [] ''hi'' =
     [\<lparr>role = User, content = ''hi'', model = None, name = None\<rparr>,
      \<lparr>role = Assistant, content = ''Hello'', model = Some ''a'', name = None\<rparr>,
      \<lparr>role = Assistant, content = ''Hi'', model = Some ''b'', name = None\<rparr>]"
  by code_simp
section \<open>The sequential chat engine\<close>

lemma streamModelResponse_failed:
  "streamChat P backend (conversationForModel conv m) m (profileOptions profile) = (tokens, Threw e)
     \<Longrightarrow> streamModelResponse P backend profile m conv = conv"
  by (simp add: streamModelResponse_def)

lemma streamModelResponse_completed:
  "streamChat P backend (conversationForModel conv m) m (profileOptions profile) = (tokens, Completed)
     \<Longrightarrow> streamModelResponse P backend profile m conv = conv @ [assistantMessage m (concat tokens)]"
  by (simp add: streamModelResponse_def)

lemma view_ignores_other_model:
  "A \<noteq> B \<Longrightarrow> conversationForModel (conv @ [assistantMessage A txt]) B = conversationForModel conv B"
  by (simp add: conversationForModel_def assistantMessage_def)

text \<open>In the sequential engine too, a model whose stream fails leaves no message, and the
  model after it is asked with the same view and answers all the same.\<close>

lemma chatSendMessage_failed_model:
  assumes "streamChat P backend (conversationForModel (conv @ [userMessage input]) A) A
             (profileOptions profile) = (tokensA, Threw e)"
      and "streamChat P backend (conversationForModel (conv @ [userMessage input]) B) B
             (profileOptions profile) = (tokensB, Completed)"
  shows "chatSendMessage P backend profile [A, B] conv input =
           conv @ [userMessage input, assistantMessage B (concat tokensB)]"
  using assms
  by (simp add: chatSendMessage_def streamModelResponse_failed streamModelResponse_completed)

text \<open>With both streams ending cleanly, the sequential engine leaves the conversation that
  the parallel engine leaves when the tasks complete in the order of the models.\<close>

lemma chatSendMessage_two_models:
  assumes "A \<noteq> B"
      and "streamChat P backend (conversationForModel (conv @ [userMessage input]) A) A
             (profileOptions profile) = (tokensA, Completed)"
      and "streamChat P backend (conversationForModel (conv @ [userMessage input]) B) B
             (profileOptions profile) = (tokensB, Completed)"
  shows "chatSendMessage P backend profile [A, B] conv input =
           conv @ [userMessage input, assistantMessage A (concat tokensA),
                   assistantMessage B (concat tokensB)]"
proof -
  have 1: "streamModelResponse P backend profile A (conv @ [userMessage input]) =
             conv @ [userMessage input, assistantMessage A (concat tokensA)]"
    using streamModelResponse_completed [OF assms(2)] by simp
  have v: "conversationForModel (conv @ [userMessage input, assistantMessage A (concat tokensA)]) B
             = conversationForModel (conv @ [userMessage input]) B"
    using view_ignores_other_model [OF assms(1), of "conv @ [userMessage input]"] by simp
  have 2: "streamModelResponse P backend profile B
             (conv @ [userMessage input, assistantMessage A (concat tokensA)]) =
             conv @ [userMessage input, assistantMessage A (concat tokensA),
                     assistantMessage B (concat tokensB)]"
    using streamModelResponse_completed [of P backend
            "conv @ [userMessage input, assistantMessage A (concat tokensA)]" B profile tokensB]
          assms(3)
    by (simp add: v)
  show ?thesis by (simp add: chatSendMessage_def 1 2)
qed

section \<open>The ink chat engine\<close>

text \<open>In the ink engine a failed model does leave a message: an assistant message with
  empty content, which the next view for that model contains.\<close>

lemma inkTurn_failed_model:
  assumes "streamChat P backend (inkConversationForModel conv A input) A (profileOptions profile)
             = (tokensA, Threw e)"
      and "streamChat P backend (inkConversationForModel conv B input) B (profileOptions profile)
             = (tokensB, Completed)"
  shows "inkTurn P backend profile [A, B] conv input =
           conv @ [assistantMessage A [], assistantMessage B (concat tokensB)]"
    and "snd (inkResponse P backend profile conv input A) =
           \<lparr>sd_content = [], sd_isStreaming = False, sd_error = Some (message e)\<rparr>"
  using assms by (simp_all add: inkTurn_def inkResponse_def)

section \<open>Storage of the API key\<close>

subsection \<open>Encodings\<close>

text \<open>The digits of a number to the base 64, in which the bytes of a sequence are
  written.\<close>

lemma digits2:
  fixes cp :: nat
  obtains B C where "cp = B * 64 + C" "C < 64" "cp div 64 = B" "cp mod 64 = C"
proof
  show "cp = cp div 64 * 64 + cp mod 64" by simp
  show "cp mod 64 < 64" by simp
qed simp_all

lemma digits3:
  fixes cp :: nat
  obtains A B C where "cp = A * 4096 + B * 64 + C" "B < 64" "C < 64"
    "cp div 4096 = A" "cp div 64 mod 64 = B" "cp mod 64 = C"
proof -
  define Q where "Q = cp div 64"
  have q: "cp = Q * 64 + cp mod 64" by (simp add: Q_def)
  have a: "Q div 64 = cp div 4096" by (simp add: Q_def div_mult2_eq)
  have q2: "Q = cp div 4096 * 64 + Q mod 64" unfolding a [symmetric] by simp
  have "cp = (cp div 4096 * 64 + Q mod 64) * 64 + cp mod 64"
    using q q2 by simp
  then have e: "cp = cp div 4096 * 4096 + Q mod 64 * 64 + cp mod 64"
    by (simp add: algebra_simps)
  show ?thesis
  proof
    show "cp = cp div 4096 * 4096 + Q mod 64 * 64 + cp mod 64" by (rule e)
    show "Q mod 64 < 64" by simp
    show "cp mod 64 < 64" by simp
    show "cp div 64 mod 64 = Q mod 64" by (simp add: Q_def)
  qed simp_all
qed

lemma digits4:
  fixes cp :: nat
  obtains A B C D where "cp = A * 262144 + B * 4096 + C * 64 + D" "B < 64" "C < 64" "D < 64"
    "cp div 262144 = A" "cp div 4096 mod 64 = B" "cp div 64 mod 64 = C" "cp mod 64 = D"
proof -
  obtain A' C D where d3: "cp = A' * 4096 + C * 64 + D" "C < 64" "D < 64"
    "cp div 4096 = A'" "cp div 64 mod 64 = C" "cp mod 64 = D"
    by (rule digits3)
  obtain A B where d2: "A' = A * 64 + B" "B < 64" "A' div 64 = A" "A' mod 64 = B"
    by (rule digits2)
  have a: "cp div 262144 = A"
    using d2(3) d3(4) by (simp add: div_mult2_eq [symmetric])
  show ?thesis
  proof
    show "cp = A * 262144 + B * 4096 + C * 64 + D"
      using d3(1) d2(1) by simp
    show "cp div 4096 mod 64 = B" using d3(4) d2(4) by simp
  qed (use d2 d3 a in simp_all)
qed

lemma seq1: "cp < 0x80 \<Longrightarrow> decodeSequence cp bs = ([cp], 0)"
  by (simp add: decodeSequence_def)

lemma seq2:
  assumes "0x80 \<le> cp" "cp < 0x800"
  shows "decodeSequence (0xC0 + cp div 0x40) ((0x80 + cp mod 0x40) # bs) = ([cp], 1)"
proof -
  obtain B C where d: "cp = B * 64 + C" "C < 64" "cp div 64 = B" "cp mod 64 = C"
    by (rule digits2)
  have b: "2 \<le> B" "B < 32" using assms d(1,2) by simp_all
  show ?thesis
    unfolding d(3) d(4) using b d(1,2)
    by (simp add: decodeSequence_def isContinuation_def)
qed

lemma seq3:
  assumes "0x800 \<le> cp" "cp < 0x10000" "\<not> (0xD800 \<le> cp \<and> cp \<le> 0xDFFF)"
  shows "decodeSequence (0xE0 + cp div 0x1000)
           ((0x80 + cp div 0x40 mod 0x40) # (0x80 + cp mod 0x40) # bs) = ([cp], 2)"
proof -
  obtain A B C where d: "cp = A * 4096 + B * 64 + C" "B < 64" "C < 64"
    "cp div 4096 = A" "cp div 64 mod 64 = B" "cp mod 64 = C"
    by (rule digits3)
  have a: "A < 16" using assms(2) d(1) by simp
  have s: "secondByte (224 + A) (128 + B)"
    unfolding secondByte_def using assms d(1,2,3) a by auto
  show ?thesis
    unfolding d(4,5,6) using a s d(1,2,3)
    by (simp add: decodeSequence_def isContinuation_def)
qed

lemma seq4:
  assumes "0x10000 \<le> cp" "cp < 0x110000"
  shows "decodeSequence (0xF0 + cp div 0x40000)
           ((0x80 + cp div 0x1000 mod 0x40) # (0x80 + cp div 0x40 mod 0x40) # (0x80 + cp mod 0x40) # bs)
         = (codeUnits cp, 3)"
proof -
  obtain A B C D where d: "cp = A * 262144 + B * 4096 + C * 64 + D" "B < 64" "C < 64" "D < 64"
    "cp div 262144 = A" "cp div 4096 mod 64 = B" "cp div 64 mod 64 = C" "cp mod 64 = D"
    by (rule digits4)
  have a: "A \<le> 4" using assms(2) d(1) by simp
  have s: "secondByte (240 + A) (128 + B)"
    unfolding secondByte_def using assms d(1,2,3,4) a by auto
  show ?thesis
    unfolding d(5,6,7,8) using a s d(1,2,3,4)
    by (simp add: decodeSequence_def isContinuation_def)
qed


lemma decode_encodeCodePoint:
  assumes "cp < 0x110000" "\<not> (0xD800 \<le> cp \<and> cp \<le> 0xDFFF)"
  shows "decodeUtf8 (encodeCodePoint cp @ rest) = codeUnits cp @ decodeUtf8 rest"
proof -
  consider "cp < 0x80" | "0x80 \<le> cp" "cp < 0x800" | "0x800 \<le> cp" "cp < 0x10000"
    | "0x10000 \<le> cp"
    by linarith
  then show ?thesis
  proof cases
    case 1
    then show ?thesis by (simp add: encodeCodePoint_def seq1 codeUnits_def)
  next
    case 2
    then show ?thesis by (simp add: encodeCodePoint_def seq2 codeUnits_def)
  next
    case 3
    then show ?thesis using assms(2) by (simp add: encodeCodePoint_def seq3 codeUnits_def)
  next
    case 4
    then show ?thesis using assms(1) by (simp add: encodeCodePoint_def seq4)
  qed
qed

lemma codePoint_range:
  assumes "isHighSurrogate h" "isLowSurrogate l"
  shows "0x10000 \<le> codePoint h l" "codePoint h l < 0x110000"
proof -
  obtain a where a: "h = 0xD800 + a" "a < 1024"
    using assms(1) by (auto simp: isHighSurrogate_def le_iff_add)
  obtain b where b: "l = 0xDC00 + b" "b < 1024"
    using assms(2) by (auto simp: isLowSurrogate_def le_iff_add)
  have c: "codePoint h l = 0x10000 + (a * 1024 + b)" by (simp add: codePoint_def a b)
  show "0x10000 \<le> codePoint h l" unfolding c by simp
  show "codePoint h l < 0x110000" unfolding c using a(2) b(2) by simp
qed

lemma codeUnits_codePoint:
  assumes "isHighSurrogate h" "isLowSurrogate l"
  shows "codeUnits (codePoint h l) = [h, l]"
proof -
  obtain a where a: "h = 0xD800 + a" "a < 1024"
    using assms(1) by (auto simp: isHighSurrogate_def le_iff_add)
  obtain b where b: "l = 0xDC00 + b" "b < 1024"
    using assms(2) by (auto simp: isLowSurrogate_def le_iff_add)
  have c: "codePoint h l = 0x10000 + (a * 1024 + b)" by (simp add: codePoint_def a b)
  have d: "(a * 1024 + b) div 1024 = a" "(a * 1024 + b) mod 1024 = b" using b(2) by simp_all
  show ?thesis unfolding c codeUnits_def using d by (simp add: a b)
qed

lemma decode_encode_units:
  "wellFormedUnits us \<Longrightarrow> \<forall>u \<in> set us. u < 0x10000 \<Longrightarrow> decodeUtf8 (encodeUtf8 us) = us"
proof (induction us rule: wellFormedUnits.induct)
  case 1
  show ?case by simp
next
  case (2 u us)
  show ?case
  proof (cases "isHighSurrogate u")
    case True
    then obtain l rest where us: "us = l # rest" and l: "isLowSurrogate l"
        and wf: "wellFormedUnits rest"
      using "2.prems"(1) by (cases us) auto
    have ih: "decodeUtf8 (encodeUtf8 rest) = rest"
      using "2.IH"(1) [OF True us] wf "2.prems"(2) us by simp
    have r: "codePoint u l < 0x110000" "\<not> (0xD800 \<le> codePoint u l \<and> codePoint u l \<le> 0xDFFF)"
      using codePoint_range [OF True l] by simp_all
    show ?thesis
      using True l by (simp add: us decode_encodeCodePoint [OF r] codeUnits_codePoint ih)
  next
    case False
    then have nl: "\<not> isLowSurrogate u" and wf: "wellFormedUnits us"
      using "2.prems"(1) by simp_all
    have ih: "decodeUtf8 (encodeUtf8 us) = us"
      using "2.IH"(2) [OF False] wf "2.prems"(2) by simp
    have r: "u < 0x110000" "\<not> (0xD800 \<le> u \<and> u \<le> 0xDFFF)"
      using "2.prems"(2) False nl by (auto simp: isHighSurrogate_def isLowSurrogate_def)
    have "u < 0x10000" using "2.prems"(2) by simp
    then have cu: "codeUnits u = [u]" by (simp add: codeUnits_def)
    show ?thesis
      using False nl by (simp add: decode_encodeCodePoint [OF r] cu ih)
  qed
qed

lemma encodeCodePoint_bytes:
  assumes "cp < 0x110000"
  shows "\<forall>b \<in> set (encodeCodePoint cp). b < 256"
proof -
  consider "cp < 0x80" | "0x80 \<le> cp" "cp < 0x800" | "0x800 \<le> cp" "cp < 0x10000"
    | "0x10000 \<le> cp"
    by linarith
  then show ?thesis
  proof cases
    case 1
    then show ?thesis by (simp add: encodeCodePoint_def)
  next
    case 2
    obtain B C where d: "cp = B * 64 + C" "C < 64" "cp div 64 = B" "cp mod 64 = C"
      by (rule digits2)
    have "B < 32" using 2 d(1) by simp
    then show ?thesis using 2 d(2) by (simp add: encodeCodePoint_def d(3,4))
  next
    case 3
    obtain A B C where d: "cp = A * 4096 + B * 64 + C" "B < 64" "C < 64"
      "cp div 4096 = A" "cp div 64 mod 64 = B" "cp mod 64 = C"
      by (rule digits3)
    have "A < 16" using 3 d(1) by simp
    then show ?thesis using 3 d(2,3) by (simp add: encodeCodePoint_def d(4,5,6))
  next
    case 4
    obtain A B C D where d: "cp = A * 262144 + B * 4096 + C * 64 + D" "B < 64" "C < 64" "D < 64"
      "cp div 262144 = A" "cp div 4096 mod 64 = B" "cp div 64 mod 64 = C" "cp mod 64 = D"
      by (rule digits4)
    have "A \<le> 4" using assms d(1) by simp
    then show ?thesis using 4 d(2,3,4) by (simp add: encodeCodePoint_def d(5,6,7,8))
  qed
qed

lemma encodeUtf8_bytes:
  "\<forall>u \<in> set us. u < 0x10000 \<Longrightarrow> \<forall>b \<in> set (encodeUtf8 us). b < 256"
proof (induction us rule: encodeUtf8.induct)
  case 1
  show ?case by simp
next
  case (2 u us)
  have f: "\<forall>b \<in> set (encodeCodePoint 0xFFFD). b < 256"
    by (rule encodeCodePoint_bytes) simp
  have g: "\<forall>b \<in> set (encodeCodePoint u). b < 256"
    using "2.prems" by (intro encodeCodePoint_bytes) simp
  show ?case
  proof (cases "isHighSurrogate u")
    case True
    show ?thesis
    proof (cases us)
      case Nil
      then show ?thesis using True f by simp
    next
      case (Cons l rest)
      show ?thesis
      proof (cases "isLowSurrogate l")
        case l: True
        have "\<forall>b \<in> set (encodeCodePoint (codePoint u l)). b < 256"
          using codePoint_range [OF True l] by (intro encodeCodePoint_bytes) simp
        moreover have "\<forall>b \<in> set (encodeUtf8 rest). b < 256"
          using "2.IH"(1) [OF True Cons l] "2.prems" Cons by simp
        ultimately show ?thesis using True Cons l by auto
      next
        case l: False
        have "\<forall>b \<in> set (encodeUtf8 us). b < 256"
          using "2.IH"(2) [OF True Cons l] "2.prems" by simp
        then show ?thesis using True Cons l f by auto
      qed
    qed
  next
    case False
    show ?thesis
    proof (cases "isLowSurrogate u")
      case True
      have "\<forall>b \<in> set (encodeUtf8 us). b < 256"
        using "2.IH"(3) [OF False True] "2.prems" by simp
      then show ?thesis using False True f by auto
    next
      case nl: False
      have "\<forall>b \<in> set (encodeUtf8 us). b < 256"
        using "2.IH"(4) [OF False nl] "2.prems" by simp
      then show ?thesis using False nl g by auto
    qed
  qed
qed

lemma unat_of_nat_bytes:
  "\<forall>b \<in> set bs. b < 256 \<Longrightarrow> map unat (map of_nat bs :: byte list) = bs"
proof (induction bs)
  case Nil
  show ?case by simp
next
  case (Cons b bs)
  have "unat (of_nat b :: byte) = b" using Cons.prems by (simp add: unat_of_nat)
  then show ?case using Cons by simp
qed

lemma units_lt: "\<forall>u \<in> set (map unat (s :: jsString)). u < 0x10000"
proof -
  have "unat (w :: 16 word) < 0x10000" for w
    using unsigned_less [of w, where 'a = nat] by simp
  then show ?thesis by simp
qed

lemma replacement_not_surrogate [simp]:
  "\<not> isHighSurrogate 0xFFFD" "\<not> isLowSurrogate 0xFFFD"
  by (simp_all add: isHighSurrogate_def isLowSurrogate_def)

lemma toWellFormedUnits_wellFormed: "wellFormedUnits (toWellFormedUnits us)"
  by (induction us rule: toWellFormedUnits.induct) (auto split: list.splits)

lemma encodeUtf8_toWellFormedUnits: "encodeUtf8 (toWellFormedUnits us) = encodeUtf8 us"
  by (induction us rule: toWellFormedUnits.induct) (auto split: list.splits)

lemma toWellFormedUnits_lt:
  "\<forall>u \<in> set us. u < 0x10000 \<Longrightarrow> \<forall>u \<in> set (toWellFormedUnits us). u < 0x10000"
proof (induction us rule: toWellFormedUnits.induct)
  case 1
  show ?case by simp
next
  case (2 u us)
  have f: "(0xFFFD :: nat) < 0x10000" by simp
  have u: "u < 0x10000" and r: "\<forall>u \<in> set us. u < 0x10000" using "2.prems" by simp_all
  show ?case
  proof (cases "isHighSurrogate u")
    case True
    show ?thesis
    proof (cases us)
      case Nil
      then show ?thesis using True f by simp
    next
      case (Cons l rest)
      show ?thesis
      proof (cases "isLowSurrogate l")
        case l: True
        have "\<forall>u \<in> set (toWellFormedUnits rest). u < 0x10000"
          using "2.IH"(1) [OF True Cons l] r Cons by simp
        then show ?thesis using True Cons l u r by simp
      next
        case l: False
        have "\<forall>u \<in> set (toWellFormedUnits us). u < 0x10000"
          using "2.IH"(2) [OF True Cons l] r by simp
        then show ?thesis using True Cons l f by simp
      qed
    qed
  next
    case False
    show ?thesis
    proof (cases "isLowSurrogate u")
      case True
      have "\<forall>u \<in> set (toWellFormedUnits us). u < 0x10000"
        using "2.IH"(3) [OF False True] r by simp
      then show ?thesis using False True f by simp
    next
      case nl: False
      have "\<forall>u \<in> set (toWellFormedUnits us). u < 0x10000"
        using "2.IH"(4) [OF False nl] r by simp
      then show ?thesis using False nl u by simp
    qed
  qed
qed

lemma toWellFormedUnits_id: "wellFormedUnits us \<Longrightarrow> toWellFormedUnits us = us"
proof (induction us rule: wellFormedUnits.induct)
  case 1
  show ?case by simp
next
  case (2 u us)
  show ?case
  proof (cases "isHighSurrogate u")
    case True
    then obtain l rest where us: "us = l # rest" and l: "isLowSurrogate l"
        and wf: "wellFormedUnits rest"
      using "2.prems" by (cases us) auto
    then show ?thesis using True "2.IH"(1) [OF True us] by simp
  next
    case False
    then show ?thesis using "2.prems" "2.IH"(2) [OF False] by simp
  qed
qed

lemma decode_encode_toWellFormed:
  assumes "\<forall>u \<in> set us. u < 0x10000"
  shows "decodeUtf8 (encodeUtf8 us) = toWellFormedUnits us"
proof -
  have "decodeUtf8 (encodeUtf8 (toWellFormedUnits us)) = toWellFormedUnits us"
    using toWellFormedUnits_wellFormed toWellFormedUnits_lt [OF assms]
    by (rule decode_encode_units)
  then show ?thesis by (simp only: encodeUtf8_toWellFormedUnits)
qed

lemma utf8_toWellFormed: "utf8String (utf8Bytes s) = toWellFormed s"
proof -
  have b: "map unat (map of_nat (encodeUtf8 (map unat s)) :: byte list) = encodeUtf8 (map unat s)"
    by (intro unat_of_nat_bytes encodeUtf8_bytes units_lt)
  show ?thesis
    unfolding utf8String_def utf8Bytes_def toWellFormed_def b
    by (simp only: decode_encode_toWellFormed [OF units_lt])
qed

lemma toWellFormed_id: "isWellFormed s \<Longrightarrow> toWellFormed s = s"
  by (simp add: toWellFormed_def isWellFormed_def toWellFormedUnits_id comp_def)

lemma utf8_roundtrip: "isWellFormed s \<Longrightarrow> utf8String (utf8Bytes s) = s"
  by (simp add: utf8_toWellFormed toWellFormed_id)

lemma isWellFormed_toWellFormed: "isWellFormed (toWellFormed s)"
proof -
  have "map unat (map of_nat (toWellFormedUnits (map unat s)) :: jsString)
          = toWellFormedUnits (map unat s)"
  proof -
    have "\<forall>u \<in> set (toWellFormedUnits (map unat s)). u < 0x10000"
      by (intro toWellFormedUnits_lt units_lt)
    then have "\<forall>u \<in> set (toWellFormedUnits (map unat s)). unat (of_nat u :: 16 word) = u"
      by (simp add: unat_of_nat)
    then show ?thesis by (simp add: map_idI)
  qed
  then show ?thesis
    unfolding isWellFormed_def toWellFormed_def by (simp only: toWellFormedUnits_wellFormed)
qed

lemma digitValue_hexDigit: "n < 16 \<Longrightarrow> digitValue (hexDigit n) = Some n"
proof -
  assume n: "n < 16"
  have "n \<in> {0,1,2,3,4,5,6,7,8,9,10,11,12,13,14,15}" using n by simp arith
  then show ?thesis
    by (auto simp: digitValue_def hexDigit_def Let_def)
qed

lemma byte_of_nibbles: "(of_nat (unat b div 16 * 16 + unat b mod 16) :: byte) = b"
  by simp

lemma hex_roundtrip: "fromHex (toHex bs) = bs"
proof (induction bs)
  case Nil
  show ?case by (simp add: toHex_def)
next
  case (Cons b bs)
  have "unat b < 256" using unsigned_less [of b, where 'a = nat] by simp
  then have hi: "unat b div 16 < 16" by simp
  have lo: "unat b mod 16 < 16" by simp
  show ?case
    using Cons byte_of_nibbles [of b]
    by (simp add: toHex_def digitValue_hexDigit [OF hi] digitValue_hexDigit [OF lo]
        del: of_nat_add of_nat_mult)
qed


lemma even_length_toHex: "even (length (toHex bs))"
  by (induction bs) (simp_all add: toHex_def)

subsection \<open>Padding and blocks\<close>

lemma pad_length: "length (pkcs7Pad bs) mod blockSize = 0 \<and> pkcs7Pad bs \<noteq> []"
proof -
  have "(length bs + (16 - length bs mod 16)) mod 16 = 0" by presburger
  moreover have "0 < 16 - length bs mod 16" by simp
  ultimately show ?thesis by (auto simp: pkcs7Pad_def blockSize_def Let_def)
qed

lemma unpad_pad: "pkcs7Unpad (pkcs7Pad bs) = Some bs"
proof -
  define n where "n = blockSize - length bs mod blockSize"
  have n: "1 \<le> n" "n \<le> 16" by (simp_all add: n_def blockSize_def)
  have p: "pkcs7Pad bs = bs @ replicate n (of_nat n)"
    by (simp add: pkcs7Pad_def n_def Let_def)
  have l: "last (pkcs7Pad bs) = (of_nat n :: byte)"
    using n by (simp add: p)
  have u: "unat (of_nat n :: byte) = n"
    using n by (simp add: unat_of_nat)
  show ?thesis
    unfolding pkcs7Unpad_def l u Let_def
    using n by (simp add: p blockSize_def)
qed

lemma concat_blocks: "concat (blocks bs) = bs"
proof (induction bs rule: blocks.induct)
  case (1 bs)
  show ?case
  proof (cases "bs = []")
    case True
    then show ?thesis by (simp add: blocks.simps)
  next
    case False
    then show ?thesis using 1 by (subst blocks.simps) simp
  qed
qed

lemma blocks_length:
  "length bs mod blockSize = 0 \<Longrightarrow> \<forall>b \<in> set (blocks bs). length b = blockSize"
proof (induction bs rule: blocks.induct)
  case (1 bs)
  show ?case
  proof (cases "bs = []")
    case True
    then show ?thesis by (simp add: blocks.simps)
  next
    case False
    obtain k where k: "length bs = 16 * k"
      using "1.prems" by (auto simp: blockSize_def mod_eq_0_iff_dvd dvd_def)
    have "k \<noteq> 0"
    proof
      assume "k = 0"
      then have "length bs = 0" using k by simp
      then show False using False by simp
    qed
    then obtain k' where k': "k = Suc k'" by (cases k) auto
    have ld: "length (drop blockSize bs) = 16 * k'"
      by (simp add: blockSize_def k k')
    have lt: "length (take blockSize bs) = blockSize"
      by (simp add: blockSize_def k k')
    have "length (drop blockSize bs) mod blockSize = 0"
      unfolding ld by (simp add: blockSize_def)
    then have ih: "\<forall>b \<in> set (blocks (drop blockSize bs)). length b = blockSize"
      by (rule "1.IH" [OF False])
    have "blocks bs = take blockSize bs # blocks (drop blockSize bs)"
      using False by (subst blocks.simps) simp
    then show ?thesis using ih lt by (simp del: length_take length_drop)
  qed
qed

lemma blocks_concat:
  "\<forall>c \<in> set cs. length c = blockSize \<Longrightarrow> blocks (concat cs) = cs"
proof (induction cs)
  case Nil
  show ?case by (simp add: blocks.simps)
next
  case (Cons c cs)
  then have c: "length c = blockSize" "c \<noteq> []" by (auto simp: blockSize_def)
  then show ?case using Cons by (subst blocks.simps) simp
qed

lemma length_concat_blocks:
  "\<forall>c \<in> set cs. length c = blockSize \<Longrightarrow> length (concat cs) = blockSize * length cs"
  by (induction cs) simp_all

subsection \<open>Chaining\<close>

lemma xorBlock_cancel: "length p = length prev \<Longrightarrow> xorBlock (xorBlock p prev) prev = p"
  by (induction p prev rule: list_induct2) (simp_all add: xorBlock_def xor.assoc)

lemma length_xorBlock: "length p = length prev \<Longrightarrow> length (xorBlock p prev) = length p"
  by (simp add: xorBlock_def)

lemma cbc_roundtrip:
  assumes inv: "\<And>b. length b = blockSize \<Longrightarrow> length (E b) = blockSize \<and> D (E b) = b"
  shows "length prev = blockSize \<Longrightarrow> \<forall>p \<in> set ps. length p = blockSize \<Longrightarrow>
           cbcDecrypt D prev (cbcEncrypt E prev ps) = ps
           \<and> (\<forall>c \<in> set (cbcEncrypt E prev ps). length c = blockSize)
           \<and> length (cbcEncrypt E prev ps) = length ps"
proof (induction ps arbitrary: prev)
  case Nil
  show ?case by simp
next
  case (Cons p ps)
  have lp: "length p = length prev" using Cons.prems by simp
  have lx: "length (xorBlock p prev) = blockSize"
    using Cons.prems by (simp add: length_xorBlock [OF lp])
  have e: "length (E (xorBlock p prev)) = blockSize" "D (E (xorBlock p prev)) = xorBlock p prev"
    using inv [OF lx] by simp_all
  have ih: "cbcDecrypt D (E (xorBlock p prev)) (cbcEncrypt E (E (xorBlock p prev)) ps) = ps
           \<and> (\<forall>c \<in> set (cbcEncrypt E (E (xorBlock p prev)) ps). length c = blockSize)
           \<and> length (cbcEncrypt E (E (xorBlock p prev)) ps) = length ps"
    using Cons.prems e(1) by (intro Cons.IH) simp_all
  show ?case
    using ih e by (simp add: xorBlock_cancel [OF lp])
qed


subsection \<open>Round trip\<close>

lemma decrypt_encrypt_utf8:
  assumes aes: "\<And>b. length b = blockSize \<Longrightarrow>
             length (aesEncryptBlock (scryptSync ENCRYPTION_KEY ''salt'' 32) b) = blockSize
             \<and> aesDecryptBlock (scryptSync ENCRYPTION_KEY ''salt'' 32)
                 (aesEncryptBlock (scryptSync ENCRYPTION_KEY ''salt'' 32) b) = b"
  shows "decrypt scryptSync aesDecryptBlock (encrypt scryptSync aesEncryptBlock t)
           = Inr (utf8String (utf8Bytes t))"
proof -
  let ?key = "scryptSync ENCRYPTION_KEY ''salt'' 32"
  let ?ps = "blocks (pkcs7Pad (utf8Bytes t))"
  let ?cs = "cbcEncrypt (aesEncryptBlock ?key) zeroIv ?ps"
  have pl: "\<forall>p \<in> set ?ps. length p = blockSize"
    using pad_length by (intro blocks_length) simp
  have iv: "length zeroIv = blockSize" by (simp add: zeroIv_def blockSize_def)
  have cbc: "cbcDecrypt (aesDecryptBlock ?key) zeroIv ?cs = ?ps"
      "\<forall>c \<in> set ?cs. length c = blockSize" "length ?cs = length ?ps"
    using cbc_roundtrip [of "aesEncryptBlock ?key" "aesDecryptBlock ?key" zeroIv ?ps,
                         OF aes iv pl]
    by simp_all
  have "?ps \<noteq> []"
    using pad_length [of "utf8Bytes t"] concat_blocks [of "pkcs7Pad (utf8Bytes t)"] by auto
  then have "0 < length ?cs" using cbc(3) by simp
  then have "0 < length (concat ?cs)"
    unfolding length_concat_blocks [OF cbc(2)] by (simp add: blockSize_def)
  then have ne: "concat ?cs \<noteq> []"
    by (rule length_greater_0_conv [THEN iffD1])
  have ml: "length (concat ?cs) mod blockSize = 0"
    using length_concat_blocks [OF cbc(2)] by simp
  have "pkcs7Unpad (concat (cbcDecrypt (aesDecryptBlock ?key) zeroIv (blocks (concat ?cs))))
          = Some (utf8Bytes t)"
    by (simp add: blocks_concat [OF cbc(2)] cbc(1) concat_blocks unpad_pad)
  then show ?thesis
    using ne ml
    by (simp add: decrypt_def encrypt_def hex_roundtrip even_length_toHex Let_def)
qed

lemma toy_block_inverse:
  "length b \<le> length key \<Longrightarrow>
     length (toyEncryptBlock key b) = length b \<and> toyDecryptBlock key (toyEncryptBlock key b) = b"
proof (induction b arbitrary: key)
  case Nil
  show ?case by (simp add: toyEncryptBlock_def toyDecryptBlock_def)
next
  case (Cons x b)
  then obtain k key' where key: "key = k # key'" by (cases key) auto
  then have "length b \<le> length key'" using Cons.prems by simp
  from Cons.IH [OF this] show ?case
    by (simp add: key toyEncryptBlock_def toyDecryptBlock_def)
qed

lemma toy_aes:
  "length b = blockSize \<Longrightarrow>
      length (toyEncryptBlock (toyScrypt ENCRYPTION_KEY ''salt'' 32) b) = blockSize
      \<and> toyDecryptBlock (toyScrypt ENCRYPTION_KEY ''salt'' 32)
          (toyEncryptBlock (toyScrypt ENCRYPTION_KEY ''salt'' 32) b) = b"
proof -
  have k: "length (toyScrypt ENCRYPTION_KEY ''salt'' 32) = 32" by code_simp
  assume "length b = blockSize"
  then show ?thesis
    using toy_block_inverse [of b "toyScrypt ENCRYPTION_KEY ''salt'' 32"] k
    by (simp add: blockSize_def)
qed

lemma utf8Bytes_lone_surrogate: "utf8Bytes [0xD800] = [0xEF, 0xBF, 0xBD]"
  by (simp add: utf8Bytes_def isHighSurrogate_def isLowSurrogate_def encodeCodePoint_def)

lemma utf8Bytes_replacement: "utf8Bytes [0xFFFD] = [0xEF, 0xBF, 0xBD]"
  by (simp add: utf8Bytes_def isHighSurrogate_def isLowSurrogate_def encodeCodePoint_def)

lemma utf8String_replacement: "utf8String [0xEF, 0xBF, 0xBD] = [0xFFFD]"
  by (simp add: utf8String_def decodeSequence_def secondByte_def isContinuation_def)

lemma sample_isWellFormed: "isWellFormed (latin1 ''sk-or-v1-'' @ [0xD83D, 0xDE00])"
  by (simp add: isWellFormed_def latin1_def isHighSurrogate_def isLowSurrogate_def)

lemma sample_utf8Bytes:
  "utf8Bytes (latin1 ''sk-or-v1-'' @ [0xD83D, 0xDE00]) =
     [0x73, 0x6B, 0x2D, 0x6F, 0x72, 0x2D, 0x76, 0x31, 0x2D, 0xF0, 0x9F, 0x98, 0x80]"
  by (simp add: utf8Bytes_def latin1_def isHighSurrogate_def isLowSurrogate_def
      encodeCodePoint_def codePoint_def)

lemma sample_encrypt:
  "encrypt toyScrypt toyEncryptBlock (latin1 ''sk-or-v1-'' @ [0xD83D, 0xDE00])
     = ''e2dd8f9cd599df5ea0590c08ec68306e''"
proof -
  have "toHex (concat (cbcEncrypt (toyEncryptBlock (toyScrypt ENCRYPTION_KEY ''salt'' 32)) zeroIv
          (blocks (pkcs7Pad [0x73, 0x6B, 0x2D, 0x6F, 0x72, 0x2D, 0x76, 0x31, 0x2D, 0xF0, 0x9F, 0x98, 0x80]))))
        = ''e2dd8f9cd599df5ea0590c08ec68306e''"
    by code_simp
  then show ?thesis by (simp only: encrypt_def sample_utf8Bytes Let_def)
qed

text \<open>
  C10, as the claim states it, fails: a JavaScript string may hold a surrogate without
  its partner, and the encoding \<^verbatim>\<open>'utf8'\<close> replaces it by U+FFFD. The string of the one
  code unit D800 and the string of the one code unit FFFD have the same bytes, EF BF BD,
  hence the same encryption, and decrypting the encryption of the first returns the
  second. (The key derivation and the block functions are the stand-ins here; lemma
  \<open>decrypt_encrypt_utf8\<close> gives the same for every pair of inverse block functions.)
\<close>

theorem C10_lone_surrogate_is_replaced:
  "utf8Bytes [0xD800] = [0xEF, 0xBF, 0xBD]
   \<and> utf8Bytes [0xFFFD] = [0xEF, 0xBF, 0xBD]
   \<and> encrypt toyScrypt toyEncryptBlock [0xD800] = encrypt toyScrypt toyEncryptBlock [0xFFFD]
   \<and> decrypt toyScrypt toyDecryptBlock (encrypt toyScrypt toyEncryptBlock [0xD800]) = Inr [0xFFFD]
   \<and> [0xD800] \<noteq> ([0xFFFD] :: jsString)"
proof -
  have e: "encrypt toyScrypt toyEncryptBlock [0xD800] = encrypt toyScrypt toyEncryptBlock [0xFFFD]"
    by (simp only: encrypt_def utf8Bytes_lone_surrogate utf8Bytes_replacement)
  have d: "decrypt toyScrypt toyDecryptBlock (encrypt toyScrypt toyEncryptBlock [0xD800])
             = Inr [0xFFFD]"
    using decrypt_encrypt_utf8 [of toyEncryptBlock toyScrypt toyDecryptBlock "[0xD800]", OF toy_aes]
    by (simp only: utf8Bytes_lone_surrogate utf8String_replacement)
  have n: "[0xD800] \<noteq> ([0xFFFD] :: jsString)" by simp
  show ?thesis
    using utf8Bytes_lone_surrogate utf8Bytes_replacement e d n by (simp only: simp_thms)
qed

text \<open>
  C10, amended. For every well-formed string, one in which every surrogate is half of a
  pair, decrypting the encryption of the string returns the string, and the encryption is
  injective on the well-formed strings. For every string whatever, decrypting the
  encryption returns the string with every unpaired surrogate replaced by U+FFFD, the
  value of \<^verbatim>\<open>s.toWellFormed()\<close>. Both functions derive the same key, use the same initialisation vector and pair the encodings
  (\<^verbatim>\<open>'utf8'\<close> in and \<^verbatim>\<open>'hex'\<close> out against \<^verbatim>\<open>'hex'\<close> in and \<^verbatim>\<open>'utf8'\<close> out). The block
  functions of AES enter through the one property used: under the derived key, decrypting
  an encrypted block gives the block back, and an encrypted block is a block.
\<close>

theorem C10_decrypt_encrypt_well_formed:
  assumes aes: "\<And>b. length b = blockSize \<Longrightarrow>
             length (aesEncryptBlock (scryptSync ENCRYPTION_KEY ''salt'' 32) b) = blockSize
             \<and> aesDecryptBlock (scryptSync ENCRYPTION_KEY ''salt'' 32)
                 (aesEncryptBlock (scryptSync ENCRYPTION_KEY ''salt'' 32) b) = b"
  shows "(isWellFormed s \<longrightarrow>
            decrypt scryptSync aesDecryptBlock (encrypt scryptSync aesEncryptBlock s) = Inr s)
       \<and> (\<forall>s'. isWellFormed s \<and> isWellFormed s'
                \<and> encrypt scryptSync aesEncryptBlock s' = encrypt scryptSync aesEncryptBlock s
                \<longrightarrow> s' = s)
       \<and> decrypt scryptSync aesDecryptBlock (encrypt scryptSync aesEncryptBlock s)
           = Inr (toWellFormed s)"
proof -
  have rt: "decrypt scryptSync aesDecryptBlock (encrypt scryptSync aesEncryptBlock t) = Inr t"
    if "isWellFormed t" for t
    using decrypt_encrypt_utf8 [of aesEncryptBlock scryptSync aesDecryptBlock t, OF aes]
    by (simp add: utf8_roundtrip [OF that])
  have inj: "s' = s"
    if "isWellFormed s" "isWellFormed s'"
       "encrypt scryptSync aesEncryptBlock s' = encrypt scryptSync aesEncryptBlock s" for s'
  proof -
    have "Inr s' = decrypt scryptSync aesDecryptBlock (encrypt scryptSync aesEncryptBlock s')"
      by (simp add: rt [OF that(2)])
    also have "\<dots> = (Inr s :: decrypt_error + jsString)"
      by (simp only: that(3) rt [OF that(1)])
    finally show ?thesis by simp
  qed
  have tw: "decrypt scryptSync aesDecryptBlock (encrypt scryptSync aesEncryptBlock s)
              = Inr (toWellFormed s)"
    using decrypt_encrypt_utf8 [of aesEncryptBlock scryptSync aesDecryptBlock s, OF aes]
    by (simp only: utf8_toWellFormed)
  show ?thesis
    using rt [of s] inj tw by blast
qed

theorem C10_decrypt_encrypt_well_formed_witness:
  "isWellFormed (latin1 ''sk-or-v1-'' @ [0xD83D, 0xDE00])
   \<and> encrypt toyScrypt toyEncryptBlock (latin1 ''sk-or-v1-'' @ [0xD83D, 0xDE00])
       = ''e2dd8f9cd599df5ea0590c08ec68306e''
   \<and> decrypt toyScrypt toyDecryptBlock ''e2dd8f9cd599df5ea0590c08ec68306e''
       = Inr (latin1 ''sk-or-v1-'' @ [0xD83D, 0xDE00])"
proof -
  note w = sample_isWellFormed
  note e = sample_encrypt
  note rt = C10_decrypt_encrypt_well_formed [of toyEncryptBlock toyScrypt toyDecryptBlock
              "latin1 ''sk-or-v1-'' @ [0xD83D, 0xDE00]", OF toy_aes, THEN conjunct1]
  show ?thesis using w e rt by (simp only: e simp_thms)
qed
end
